theory Spec2Isabelle
  imports Main "HOL-Library.AList" "HOL-Library.Multiset" "HOL-Library.Sublist"
begin

section \<open>Python strings\<close>

text \<open>
  A Python \<open>str\<close> is modelled as a \<open>string\<close>: the list of its code points, here those
  below 256. The functions below are the string methods that
  \<open>read_gcs_files_to_dataframes_aserta\<close> (cloudrun/api_plantilla/Tools.py) calls.
\<close>

text \<open>\<open>str.isspace\<close> on one character: the white space code points below 256.\<close>

definition isspace :: "char \<Rightarrow> bool" where
  "isspace c = (of_char c \<in> {9, 10, 11, 12, 13, 28, 29, 30, 31, 32, 133, 160 :: nat})"

text \<open>\<open>s.strip()\<close>: leading and trailing white space removed.\<close>

definition strip :: "string \<Rightarrow> string" where
  "strip s = dropWhile isspace (rev (dropWhile isspace (rev s)))"

text \<open>\<open>s.split(sep)\<close> for a separator of one character; never the empty list.\<close>

fun split_str :: "char \<Rightarrow> string \<Rightarrow> string list" where
  "split_str sep [] = [[]]"
| "split_str sep (c # cs) =
     (if c = sep then [] # split_str sep cs
      else (case split_str sep cs of
              [] \<Rightarrow> [[c]]
            | w # ws \<Rightarrow> (c # w) # ws))"

text \<open>\<open>sep.join(xs)\<close>.\<close>

fun join_str :: "string \<Rightarrow> string list \<Rightarrow> string" where
  "join_str sep [] = []"
| "join_str sep [x] = x"
| "join_str sep (x # y # ys) = x @ sep @ join_str sep (y # ys)"

definition startswith :: "string \<Rightarrow> string \<Rightarrow> bool" where
  "startswith s p = (take (length p) s = p)"

definition endswith :: "string \<Rightarrow> string \<Rightarrow> bool" where
  "endswith s t = (length t \<le> length s \<and> drop (length s - length t) s = t)"

text \<open>\<open>s.replace("\\", "/")\<close>.\<close>

definition replace_backslash :: "string \<Rightarrow> string" where
  "replace_backslash s = map (\<lambda>c. if c = CHR 0x5C then CHR ''/'' else c) s"

text \<open>\<open>os.path.join(a, b)\<close> of posixpath, for two components.\<close>

definition os_path_join :: "string \<Rightarrow> string \<Rightarrow> string" where
  "os_path_join a b =
     (if startswith b ''/'' then b
      else if a = [] \<or> endswith a ''/'' then a @ b
      else a @ ''/'' @ b)"

text \<open>\<open>blob.name.split("/")[-1]\<close>: the trailing path segment of a blob name.\<close>

definition basename :: "string \<Rightarrow> string" where
  "basename name = last (split_str CHR ''/'' name)"

section \<open>Data frames\<close>

text \<open>
  A \<open>pandas.DataFrame\<close> is modelled by its rows in order, a row by the association of its
  column labels to its cells; a label a row does not have is a missing value. The row index
  is left out: \<open>pd.concat(..., ignore_index=True)\<close> renumbers it. \<open>pd.DataFrame()\<close> is the
  frame without rows.
\<close>

datatype cell = Text string | Number int | Missing

type_synonym row = "(string \<times> cell) list"
type_synonym dataframe = "row list"

definition empty_df :: dataframe where
  "empty_df = []"

text \<open>\<open>df[col] = v\<close> for a scalar \<open>v\<close>: the column is replaced in place or added last.\<close>

definition set_column :: "string \<Rightarrow> cell \<Rightarrow> dataframe \<Rightarrow> dataframe" where
  "set_column col v df = map (AList.update col v) df"

text \<open>\<open>pd.concat(frames, ignore_index=True)\<close>.\<close>

definition pd_concat :: "dataframe list \<Rightarrow> dataframe" where
  "pd_concat frames = concat frames"

section \<open>The bucket and its collaborators\<close>

text \<open>
  The bucket is the association of blob names to blob contents, kept in the order in which
  \<open>list_blobs\<close> returns them. Every call that can raise is a field of \<open>env\<close>: the field
  says whether the call succeeds in this run (each of them is made at most once per run and
  per blob). The two readers of pandas, with the \<open>kwargs\<close> of the run already applied, map
  the bytes of a file to a frame, \<open>None\<close> when they raise.
\<close>

type_synonym gcs = "(string \<times> string) list"

datatype exn = ClientError | ExistsError | DownloadError | ListError | ParseError | UploadError

record env =
  client_ok :: bool
  exists_ok :: bool
  download_text_ok :: bool
  list_ok :: bool
  download_ok :: "string \<Rightarrow> bool"
  read_excel :: "string \<Rightarrow> dataframe option"
  read_csv :: "string \<Rightarrow> dataframe option"
  upload_ok :: bool

text \<open>
  What a run leaves behind: the value it returns (\<open>Inl\<close> an exception that leaves the
  function), the bucket afterwards, and the text handed to \<open>log_blob.upload_from_string\<close>,
  if the run made that call.
\<close>

record outcome =
  returned :: "exn + dataframe"
  bucket_after :: gcs
  uploaded :: "string option"

section \<open>read\_gcs\_files\_to\_dataframes\_aserta\<close>

definition log_filename :: string where
  "log_filename = ''file_already_read.txt''"

text \<open>Line 240: the name of the ledger blob.\<close>

definition log_blob_name :: "string \<Rightarrow> string" where
  "log_blob_name pfx = replace_backslash (os_path_join pfx log_filename)"

text \<open>Lines 249-251: the names in the text of the ledger.\<close>

definition parse_log :: "string \<Rightarrow> string list" where
  "parse_log log_content =
     map strip (filter (\<lambda>f. strip f \<noteq> []) (split_str CHR 0x0A log_content))"

text \<open>Lines 238-258: the ledger as the run reads it.\<close>

definition read_log :: "env \<Rightarrow> gcs \<Rightarrow> string \<Rightarrow> bool \<Rightarrow> exn + string list" where
  "read_log e st pfx read_log_file =
     (if read_log_file then
        (if \<not> exists_ok e then Inl ExistsError
         else (case map_of st (log_blob_name pfx) of
                 None \<Rightarrow> Inr []
               | Some log_content \<Rightarrow>
                   if \<not> download_text_ok e then Inl DownloadError
                   else Inr (parse_log log_content)))
      else Inr [])"

text \<open>
  Line 261: \<open>bucket.list_blobs(prefix=prefix, delimiter="/" if delimiter else None)\<close>.
  \<open>blobs_under\<close> is what the bucket answers: the names of the blobs under the prefix
  \<open>pfx\<close>; with the delimiter, only those with no further \<open>/\<close>.
\<close>

definition blobs_under :: "gcs \<Rightarrow> string \<Rightarrow> bool \<Rightarrow> string list" where
  "blobs_under st pfx delimiter =
     filter (\<lambda>name. startswith name pfx \<and>
               (if delimiter then CHR ''/'' \<notin> set (drop (length pfx) name) else True))
       (map fst st)"

definition list_blobs :: "env \<Rightarrow> gcs \<Rightarrow> string \<Rightarrow> bool \<Rightarrow> exn + string list" where
  "list_blobs e st pfx delimiter =
     (if \<not> list_ok e then Inl ListError else Inr (blobs_under st pfx delimiter))"

text \<open>Lines 263-271.\<close>

definition candidate_files :: "string \<Rightarrow> string option \<Rightarrow> string list \<Rightarrow> string list" where
  "candidate_files file_type file_prefix blobs =
     filter (\<lambda>name. endswith name file_type
                \<and> (case file_prefix of
                      None \<Rightarrow> True
                    | Some p \<Rightarrow> startswith (basename name) p)
                \<and> basename name \<noteq> log_filename) blobs"

text \<open>Lines 278-287: the blobs to read; the pending list holds their trailing names.\<close>

definition files_to_read :: "bool \<Rightarrow> string list \<Rightarrow> string list \<Rightarrow> string list" where
  "files_to_read read_log_file files_already_read candidates =
     filter (\<lambda>name. \<not> (read_log_file \<and> basename name \<in> set files_already_read)) candidates"

text \<open>
  Lines 301-309, the body of the inner \<open>try\<close> up to the frame: \<open>Inl\<close> when the download or
  the reader raises, \<open>Inr None\<close> at the \<open>continue\<close> of an unsupported type.
\<close>

definition read_one :: "env \<Rightarrow> gcs \<Rightarrow> string \<Rightarrow> string \<Rightarrow> exn + dataframe option" where
  "read_one e st file_type name =
     (if \<not> download_ok e name then Inl DownloadError
      else (case map_of st name of
              None \<Rightarrow> Inl DownloadError
            | Some file_bytes \<Rightarrow>
                if file_type = ''.xlsx'' then
                  (case read_excel e file_bytes of
                     None \<Rightarrow> Inl ParseError
                   | Some df \<Rightarrow> Inr (Some df))
                else if file_type = ''.csv'' then
                  (case read_csv e file_bytes of
                     None \<Rightarrow> Inl ParseError
                   | Some df \<Rightarrow> Inr (Some df))
                else Inr None))"

text \<open>
  Lines 298-316: the loop over \<open>files_to_read\<close>, on the pair of \<open>all_dataframes\<close> and
  \<open>files_to_update_log\<close>. \<open>list.remove\<close> deletes the first occurrence.
\<close>

fun process_files ::
  "env \<Rightarrow> gcs \<Rightarrow> string \<Rightarrow> string list \<Rightarrow> dataframe list \<times> string list
     \<Rightarrow> dataframe list \<times> string list" where
  "process_files e st file_type [] acc = acc"
| "process_files e st file_type (name # names) (all_dataframes, files_to_update_log) =
     (let file_name = basename name in
      case read_one e st file_type name of
        Inl ex \<Rightarrow>
          process_files e st file_type names
            (all_dataframes,
             if file_name \<in> set files_to_update_log
             then remove1 file_name files_to_update_log
             else files_to_update_log)
      | Inr None \<Rightarrow>
          process_files e st file_type names (all_dataframes, files_to_update_log)
      | Inr (Some df) \<Rightarrow>
          process_files e st file_type names
            (all_dataframes @ [set_column ''file'' (Text file_name) df],
             files_to_update_log))"

text \<open>Lines 326-348: the ledger write; an exception of the upload is caught there.\<close>

definition write_log ::
  "env \<Rightarrow> gcs \<Rightarrow> string \<Rightarrow> string list \<Rightarrow> string list \<Rightarrow> gcs \<times> string option" where
  "write_log e st pfx files_already_read files_to_update_log =
     (let updated_log_list = files_already_read @ files_to_update_log;
          updated_log_content = join_str [CHR 0x0A] updated_log_list
      in (if upload_ok e then AList.update (log_blob_name pfx) updated_log_content st
          else st,
          Some updated_log_content))"

text \<open>
  Lines 233-353: the body of the outer \<open>try\<close>. The bucket name only selects the bucket
  and appears in messages: the bucket is the argument \<open>st\<close>.
\<close>

definition try_body ::
  "env \<Rightarrow> gcs \<Rightarrow> string \<Rightarrow> string \<Rightarrow> string option \<Rightarrow> bool \<Rightarrow> bool \<Rightarrow> outcome" where
  "try_body e st pfx file_type file_prefix delimiter read_log_file =
     (if \<not> client_ok e then
        \<lparr>returned = Inl ClientError, bucket_after = st, uploaded = None\<rparr>
      else
        case read_log e st pfx read_log_file of
          Inl ex \<Rightarrow> \<lparr>returned = Inl ex, bucket_after = st, uploaded = None\<rparr>
        | Inr files_already_read \<Rightarrow>
            (case list_blobs e st pfx delimiter of
               Inl ex \<Rightarrow> \<lparr>returned = Inl ex, bucket_after = st, uploaded = None\<rparr>
             | Inr blobs \<Rightarrow>
                 let candidates = candidate_files file_type file_prefix blobs in
                 if candidates = [] then
                   \<lparr>returned = Inr empty_df, bucket_after = st, uploaded = None\<rparr>
                 else
                   let to_read = files_to_read read_log_file files_already_read candidates in
                   if to_read = [] then
                     \<lparr>returned = Inr empty_df, bucket_after = st, uploaded = None\<rparr>
                   else
                     let (all_dataframes, files_to_update_log) =
                           process_files e st file_type to_read ([], map basename to_read)
                     in
                     if all_dataframes \<noteq> [] then
                       let final_df = pd_concat all_dataframes in
                       if read_log_file \<and> files_to_update_log \<noteq> [] then
                         let (st', up) =
                               write_log e st pfx files_already_read files_to_update_log
                         in \<lparr>returned = Inr final_df, bucket_after = st', uploaded = up\<rparr>
                       else \<lparr>returned = Inr final_df, bucket_after = st, uploaded = None\<rparr>
                     else \<lparr>returned = Inr empty_df, bucket_after = st, uploaded = None\<rparr>))"

text \<open>Lines 232 and 355-357: the outer handler returns \<open>pd.DataFrame()\<close>.\<close>

definition read_gcs_files_to_dataframes_aserta ::
  "env \<Rightarrow> gcs \<Rightarrow> string \<Rightarrow> string \<Rightarrow> string option \<Rightarrow> bool \<Rightarrow> bool \<Rightarrow> outcome" where
  "read_gcs_files_to_dataframes_aserta e st pfx file_type file_prefix delimiter read_log_file =
     (let r = try_body e st pfx file_type file_prefix delimiter read_log_file in
      case returned r of
        Inl ex \<Rightarrow> r\<lparr>returned := Inr empty_df\<rparr>
      | Inr df \<Rightarrow> r)"

section \<open>Notions used to state the properties\<close>

text \<open>The names in the ledger object of the bucket, as lines 247-251 read them.\<close>

definition ledger_names :: "gcs \<Rightarrow> string \<Rightarrow> string list" where
  "ledger_names st pfx =
     (case map_of st (log_blob_name pfx) of
        None \<Rightarrow> []
      | Some log_content \<Rightarrow> parse_log log_content)"

text \<open>A file is parsed when the inner \<open>try\<close> reaches line 311 with a frame.\<close>

definition parsed_ok :: "env \<Rightarrow> gcs \<Rightarrow> string \<Rightarrow> string \<Rightarrow> bool" where
  "parsed_ok e st file_type name =
     (case read_one e st file_type name of
        Inr (Some df) \<Rightarrow> True
      | _ \<Rightarrow> False)"

text \<open>A file fails when its download or its reader raises (lines 313-316).\<close>

definition read_failed :: "env \<Rightarrow> gcs \<Rightarrow> string \<Rightarrow> string \<Rightarrow> bool" where
  "read_failed e st file_type name =
     (case read_one e st file_type name of
        Inl ex \<Rightarrow> True
      | Inr r \<Rightarrow> False)"

text \<open>The frames of the files that parse, in order, each with its column \<open>file\<close>.\<close>

definition successful_frames :: "env \<Rightarrow> gcs \<Rightarrow> string \<Rightarrow> string list \<Rightarrow> dataframe list" where
  "successful_frames e st file_type names =
     concat (map (\<lambda>name. case read_one e st file_type name of
                             Inr (Some df) \<Rightarrow> [set_column ''file'' (Text (basename name)) df]
                           | _ \<Rightarrow> []) names)"

text \<open>A name that the ledger reader returns as it was written on its line.\<close>

definition reads_back :: "string \<Rightarrow> bool" where
  "reads_back name = (parse_log name = [name])"

text \<open>The trailing path segment in the words of the specification: what follows the
  last \<open>/\<close>.\<close>

definition trailing_segment :: "string \<Rightarrow> string" where
  "trailing_segment name = rev (takeWhile (\<lambda>c. c \<noteq> CHR ''/'') (rev name))"

text \<open>Successive runs on the same bucket with the same arguments, one \<open>env\<close> per run.\<close>

fun runs ::
  "env list \<Rightarrow> gcs \<Rightarrow> string \<Rightarrow> string \<Rightarrow> string option \<Rightarrow> bool \<Rightarrow> bool \<Rightarrow> gcs" where
  "runs [] st pfx file_type file_prefix delimiter read_log_file = st"
| "runs (e # es) st pfx file_type file_prefix delimiter read_log_file =
     runs es
       (bucket_after
          (read_gcs_files_to_dataframes_aserta e st pfx file_type file_prefix delimiter
             read_log_file))
       pfx file_type file_prefix delimiter read_log_file"

section \<open>Example buckets and collaborators\<close>

text \<open>
  A reader that raises on the bytes \<open>bad\<close>, returns a frame without rows on the bytes
  \<open>hdr\<close> (a file that holds only a header line), and one row holding the bytes otherwise.
\<close>

definition example_reader :: "string \<Rightarrow> dataframe option" where
  "example_reader file_bytes =
     (if file_bytes = ''bad'' then None
      else if file_bytes = ''hdr'' then Some []
      else Some [[(''value'', Text file_bytes)]])"

definition env_ok :: env where
  "env_ok = \<lparr>client_ok = True, exists_ok = True, download_text_ok = True, list_ok = True,
             download_ok = (\<lambda>name. True), read_excel = example_reader,
             read_csv = example_reader, upload_ok = True\<rparr>"

definition env_upload_fails :: env where
  "env_upload_fails = env_ok\<lparr>upload_ok := False\<rparr>"

definition bucket_abc :: gcs where
  "bucket_abc = [(''d/a.csv'', ''1''), (''d/b.csv'', ''bad''), (''d/c.csv'', ''3'')]"

definition bucket_xy :: gcs where
  "bucket_xy = [(''d/file_already_read.txt'', ''w.csv''), (''d/w.csv'', ''0''),
                (''d/x.csv'', ''1''), (''d/y.csv'', ''2'')]"

definition bucket_done :: gcs where
  "bucket_done = [(''d/file_already_read.txt'', ''x.csv''), (''d/x.csv'', ''1'')]"

definition bucket_json :: gcs where
  "bucket_json = [(''d/a.json'', ''1'')]"

definition bucket_same_name :: gcs where
  "bucket_same_name = [(''d/p/x.csv'', ''bad''), (''d/q/x.csv'', ''1'')]"

definition bucket_two_good :: gcs where
  "bucket_two_good = [(''d/p/x.csv'', ''1''), (''d/q/x.csv'', ''2'')]"

definition bucket_no_rows :: gcs where
  "bucket_no_rows = [(''d/h.csv'', ''hdr'')]"

definition bucket_spaced_name :: gcs where
  "bucket_spaced_name = [(''d/p/ x.csv'', ''1''), (''d/q/ x.csv'', ''2'')]"

definition bucket_shared_abc :: gcs where
  "bucket_shared_abc = [(''d/p/x.csv'', ''1''), (''d/q/x.csv'', ''bad''),
                        (''d/r/y.csv'', ''3'')]"

definition bucket_spaced_abc :: gcs where
  "bucket_spaced_abc = [(''d/ b.csv'', ''1''), (''d/b.csv'', ''bad''),
                        (''d/c.csv'', ''3'')]"

section \<open>Strings and the ledger text\<close>

lemma split_str_not_Nil [simp]: "split_str c s \<noteq> []"
  by (induction s) (auto split: list.splits)

lemma split_str_no_sep: "c \<notin> set s \<Longrightarrow> split_str c s = [s]"
  by (induction s) auto

lemma split_str_append_sep: "split_str c (x @ c # y) = split_str c x @ split_str c y"
  by (induction x) (auto split: list.splits)

lemma split_str_pieces: "w \<in> set (split_str c s) \<Longrightarrow> c \<notin> set w"
  by (induction s arbitrary: w) (auto split: if_splits list.splits)

lemma split_str_join:
  "xs \<noteq> [] \<Longrightarrow> split_str c (join_str [c] xs) = concat (map (split_str c) xs)"
  by (induction "[c]" xs rule: join_str.induct) (simp_all add: split_str_append_sep)

lemma parse_log_Nil [simp]: "parse_log [] = []"
  by (simp add: parse_log_def strip_def)

lemma parse_log_join: "parse_log (join_str [CHR 0x0A] xs) = concat (map parse_log xs)"
proof (cases "xs = []")
  case True then show ?thesis by simp
next
  case False
  have pl: "parse_log = (\<lambda>s. map strip (filter (\<lambda>f. strip f \<noteq> []) (split_str CHR 0x0A s)))"
    by (rule ext) (simp add: parse_log_def)
  show ?thesis unfolding pl using False
    by (simp add: split_str_join map_concat filter_concat comp_def)
qed

lemma last_split_str_append:
  "last (split_str c (x @ c # y)) = last (split_str c y)"
  by (simp add: split_str_append_sep)

lemma basename_slash: "CHR ''/'' \<notin> set y \<Longrightarrow> basename (x @ CHR ''/'' # y) = y"
  by (simp add: basename_def last_split_str_append split_str_no_sep)

lemma replace_backslash_append:
  "replace_backslash (a @ b) = replace_backslash a @ replace_backslash b"
  by (simp add: replace_backslash_def)

lemma basename_log_blob_name: "basename (log_blob_name pfx) = log_filename"
proof -
  have nf: "CHR ''/'' \<notin> set log_filename" by (simp add: log_filename_def)
  have rl: "replace_backslash log_filename = log_filename"
    by (simp add: replace_backslash_def log_filename_def)
  have ns: "\<not> startswith log_filename ''/''"
    by (simp add: startswith_def log_filename_def)
  have sl: "replace_backslash ''/'' = ''/''"
    by (simp add: replace_backslash_def)
  have sc: "replace_backslash (CHR ''/'' # l) = CHR ''/'' # replace_backslash l" for l
    by (simp add: replace_backslash_def)
  have A: "basename (replace_backslash (a @ ''/'' @ log_filename)) = log_filename" for a
    using basename_slash[OF nf, of "replace_backslash a"]
    by (simp add: replace_backslash_append rl sc)
  show ?thesis
  proof (cases "pfx = []")
    case True
    then show ?thesis using nf
      by (simp add: log_blob_name_def os_path_join_def ns rl basename_def split_str_no_sep)
  next
    case False
    show ?thesis
    proof (cases "endswith pfx ''/''")
      case True
      then have "drop (length pfx - 1) pfx = ''/''" by (simp add: endswith_def)
      then have "pfx = take (length pfx - 1) pfx @ ''/''"
        by (metis append_take_drop_id)
      then obtain p where p: "pfx = p @ ''/''" by blast
      have "log_blob_name pfx = replace_backslash (p @ ''/'' @ log_filename)"
        using True False by (simp add: log_blob_name_def os_path_join_def ns p)
      then show ?thesis using A by simp
    next
      case F2: False
      have "log_blob_name pfx = replace_backslash (pfx @ ''/'' @ log_filename)"
        using F2 False by (simp add: log_blob_name_def os_path_join_def ns)
      then show ?thesis using A by simp
    qed
  qed
qed


lemma strip_fixed:
  assumes "x \<noteq> []" "\<not> isspace (hd x)" "\<not> isspace (last x)"
  shows "strip x = x"
proof -
  have "dropWhile isspace (rev x) = rev x"
    using assms by (cases "rev x") (auto simp: last_rev hd_rev)
  moreover have "dropWhile isspace x = x"
    using assms by (cases x) auto
  ultimately show ?thesis by (simp add: strip_def)
qed

lemma strip_ends:
  assumes "strip f \<noteq> []"
  shows "\<not> isspace (hd (strip f)) \<and> \<not> isspace (last (strip f))"
proof -
  let ?m = "rev (dropWhile isspace (rev f))"
  have s: "strip f = dropWhile isspace ?m" by (simp add: strip_def)
  have h: "\<not> isspace (hd (strip f))"
    using assms unfolding s by (rule hd_dropWhile)
  have m: "dropWhile isspace (rev f) \<noteq> []"
  proof
    assume "dropWhile isspace (rev f) = []"
    then have "strip f = dropWhile isspace (rev [])" by (simp only: strip_def)
    with assms show False by simp
  qed
  have "\<not> isspace (hd (dropWhile isspace (rev f)))" using m by (rule hd_dropWhile)
  then have lm: "\<not> isspace (last ?m)" using m by (simp add: last_rev)
  have "last (dropWhile isspace ?m) = last ?m"
    using assms s by (metis append_take_drop_id last_appendR takeWhile_dropWhile_id)
  then show ?thesis using h lm s by simp
qed

lemma strip_subset: "set (strip f) \<subseteq> set f"
proof -
  have "set (strip f) \<subseteq> set (rev (dropWhile isspace (rev f)))"
    unfolding strip_def by (rule set_dropWhileD[THEN subsetI]) 
  also have "\<dots> \<subseteq> set f"
    using set_dropWhileD[of _ isspace "rev f"] by auto
  finally show ?thesis .
qed

lemma reads_backI:
  assumes "x \<noteq> []" "\<not> isspace (hd x)" "\<not> isspace (last x)" "CHR 0x0A \<notin> set x"
  shows "reads_back x"
  using assms by (simp add: reads_back_def parse_log_def split_str_no_sep strip_fixed)

lemma parse_log_reads_back: "n \<in> set (parse_log c) \<Longrightarrow> reads_back n"
proof -
  assume "n \<in> set (parse_log c)"
  then obtain f where f: "f \<in> set (split_str CHR 0x0A c)" "strip f \<noteq> []" "n = strip f"
    by (auto simp: parse_log_def)
  have "CHR 0x0A \<notin> set f" using f(1) by (rule split_str_pieces)
  then have "CHR 0x0A \<notin> set n" using strip_subset[of f] f(3) by auto
  then show ?thesis using strip_ends[OF f(2)] f(2,3) by (auto intro: reads_backI)
qed

lemma parse_log_join_reads_back:
  "\<forall>x\<in>set xs. reads_back x \<Longrightarrow> parse_log (join_str [CHR 0x0A] xs) = xs"
  by (induction xs) (simp_all add: parse_log_join reads_back_def)

lemma set_parse_log_join:
  "set (parse_log (join_str [CHR 0x0A] xs)) = (\<Union>x\<in>set xs. set (parse_log x))"
  by (simp add: parse_log_join)

section \<open>The loop over the files to read\<close>

lemma process_files_frames:
  "fst (process_files e st ft names (dfs, upd)) = dfs @ successful_frames e st ft names"
  by (induction names arbitrary: dfs upd)
     (auto simp: successful_frames_def Let_def split: sum.splits option.splits)

lemma process_files_pending_mset:
  "mset (snd (process_files e st ft names (dfs, upd))) =
     mset upd - mset (map basename (filter (read_failed e st ft) names))"
  by (induction names arbitrary: dfs upd)
     (auto simp: read_failed_def Let_def split: sum.splits option.splits)

lemma process_files_pending_names:
  "mset (snd (process_files e st ft names (dfs, map basename names))) =
     mset (map basename (filter (\<lambda>n. \<not> read_failed e st ft n) names))"
proof -
  have "mset (map basename names) =
          mset (map basename (filter (read_failed e st ft) names)) +
          mset (map basename (filter (\<lambda>n. \<not> read_failed e st ft n) names))"
    by (induction names) auto
  then show ?thesis by (simp add: process_files_pending_mset)
qed

lemma process_files_pending_set:
  "set (snd (process_files e st ft names (dfs, map basename names))) =
     basename ` {n \<in> set names. \<not> read_failed e st ft n}"
proof -
  have "set (snd (process_files e st ft names (dfs, map basename names))) =
          set_mset (mset (snd (process_files e st ft names (dfs, map basename names))))"
    by simp
  also have "\<dots> = basename ` {n \<in> set names. \<not> read_failed e st ft n}"
    unfolding process_files_pending_names by auto
  finally show ?thesis .
qed

lemma process_files_pending_exact:
  assumes "\<forall>b\<in>set names. read_failed e st ft b \<longrightarrow> basename b \<notin> set K"
    and "\<forall>b\<in>set names. \<forall>b'\<in>set names.
           read_failed e st ft b \<and> \<not> read_failed e st ft b' \<longrightarrow> basename b \<noteq> basename b'"
  shows "snd (process_files e st ft names (dfs, K @ map basename names)) =
           K @ map basename (filter (\<lambda>n. \<not> read_failed e st ft n) names)"
  using assms
proof (induction names arbitrary: dfs K)
  case Nil
  then show ?case by simp
next
  case (Cons b names)
  show ?case
  proof (cases "read_failed e st ft b")
    case True
    then obtain ex where ex: "read_one e st ft b = Inl ex"
      by (auto simp: read_failed_def split: sum.splits)
    have nk: "basename b \<notin> set K" using Cons.prems(1) True by simp
    have "snd (process_files e st ft (b # names) (dfs, K @ map basename (b # names))) =
            snd (process_files e st ft names (dfs, K @ map basename names))"
      using ex nk by (simp add: remove1_append)
    also have "\<dots> = K @ map basename (filter (\<lambda>n. \<not> read_failed e st ft n) names)"
      using Cons.prems by (intro Cons.IH) auto
    finally show ?thesis using True by simp
  next
    case False
    have step: "\<exists>dfs'. process_files e st ft (b # names) (dfs, K @ map basename (b # names)) =
            process_files e st ft names (dfs', (K @ [basename b]) @ map basename names)"
    proof (cases "read_one e st ft b")
      case (Inl ex)
      then show ?thesis using False by (simp add: read_failed_def)
    next
      case (Inr r)
      then show ?thesis by (cases r) (auto simp: Let_def intro: exI)
    qed
    then obtain dfs' where d: "process_files e st ft (b # names) (dfs, K @ map basename (b # names)) =
            process_files e st ft names (dfs', (K @ [basename b]) @ map basename names)" by blast
    have "snd (process_files e st ft names (dfs', (K @ [basename b]) @ map basename names)) =
            (K @ [basename b]) @ map basename (filter (\<lambda>n. \<not> read_failed e st ft n) names)"
      using Cons.prems False by (intro Cons.IH) auto
    then show ?thesis using d False by simp
  qed
qed

lemma supported_not_failed:
  "parsed_ok e st ft m \<Longrightarrow> (\<not> read_failed e st ft n) = parsed_ok e st ft n"
  by (auto simp: parsed_ok_def read_failed_def read_one_def
           split: sum.splits option.splits if_splits)

lemma unsupported_frames:
  "ft \<noteq> ''.xlsx'' \<Longrightarrow> ft \<noteq> ''.csv'' \<Longrightarrow> successful_frames e st ft names = []"
  by (induction names)
     (auto simp: successful_frames_def read_one_def split: sum.splits option.splits)

lemma successful_frames_Nil_iff:
  "(successful_frames e st ft names = []) = (\<forall>n\<in>set names. \<not> parsed_ok e st ft n)"
  by (induction names)
     (auto simp: successful_frames_def parsed_ok_def split: sum.splits option.splits)

section \<open>The shape of a run\<close>

lemma read_log_Inr:
  "read_log e st pfx rlf = Inr far \<Longrightarrow> far = (if rlf then ledger_names st pfx else [])"
  by (auto simp: read_log_def ledger_names_def split: if_splits option.splits)

lemma read_log_ok:
  "exists_ok e \<Longrightarrow> download_text_ok e \<Longrightarrow>
     read_log e st pfx rlf = Inr (if rlf then ledger_names st pfx else [])"
  by (auto simp: read_log_def ledger_names_def split: option.splits)

lemma run_setup_fails:
  assumes "\<not> client_ok e \<or> (\<exists>ex. read_log e st pfx rlf = Inl ex) \<or> \<not> list_ok e"
  shows "read_gcs_files_to_dataframes_aserta e st pfx ft fp d rlf =
           \<lparr>returned = Inr empty_df, bucket_after = st, uploaded = None\<rparr>"
proof -
  have "\<exists>ex. try_body e st pfx ft fp d rlf =
          \<lparr>returned = Inl ex, bucket_after = st, uploaded = None\<rparr>"
    using assms
    by (cases "read_log e st pfx rlf") (auto simp: try_body_def list_blobs_def)
  then show ?thesis
    by (auto simp: read_gcs_files_to_dataframes_aserta_def)
qed

lemma frames_pending:
  assumes "successful_frames e st ft names \<noteq> []"
  shows "snd (process_files e st ft names (dfs, map basename names)) \<noteq> []"
proof -
  obtain n where n: "n \<in> set names" "parsed_ok e st ft n"
    using assms by (auto simp: successful_frames_Nil_iff)
  then have "\<not> read_failed e st ft n" by (simp add: supported_not_failed[OF n(2)])
  then have "basename n \<in> set (snd (process_files e st ft names (dfs, map basename names)))"
    using n(1) by (auto simp: process_files_pending_set)
  then show ?thesis by auto
qed

lemma run_setup_ok:
  assumes "client_ok e" "read_log e st pfx rlf = Inr far" "list_ok e"
    and tr: "to_read = files_to_read rlf far (candidate_files ft fp (blobs_under st pfx d))"
    and fr: "frames = successful_frames e st ft to_read"
    and up: "upd = snd (process_files e st ft to_read ([], map basename to_read))"
  shows "read_gcs_files_to_dataframes_aserta e st pfx ft fp d rlf =
           (if frames = [] then \<lparr>returned = Inr empty_df, bucket_after = st, uploaded = None\<rparr>
            else if rlf then
              \<lparr>returned = Inr (pd_concat frames),
               bucket_after = fst (write_log e st pfx far upd),
               uploaded = snd (write_log e st pfx far upd)\<rparr>
            else \<lparr>returned = Inr (pd_concat frames), bucket_after = st, uploaded = None\<rparr>)"
proof -
  have pf: "process_files e st ft to_read ([], map basename to_read) = (frames, upd)"
    using process_files_frames[of e st ft to_read "[]" "map basename to_read"]
    by (simp add: fr up prod_eq_iff)
  have cn: "candidate_files ft fp (blobs_under st pfx d) = [] \<Longrightarrow> to_read = []"
    by (simp add: tr files_to_read_def)
  have e0: "to_read = [] \<Longrightarrow> frames = []" by (simp add: fr successful_frames_def)
  have un: "frames \<noteq> [] \<Longrightarrow> upd \<noteq> []" using frames_pending[of e st ft to_read "[]"]
    by (simp add: fr up)
  have "try_body e st pfx ft fp d rlf =
           (if frames = [] then \<lparr>returned = Inr empty_df, bucket_after = st, uploaded = None\<rparr>
            else if rlf then
              \<lparr>returned = Inr (pd_concat frames),
               bucket_after = fst (write_log e st pfx far upd),
               uploaded = snd (write_log e st pfx far upd)\<rparr>
            else \<lparr>returned = Inr (pd_concat frames), bucket_after = st, uploaded = None\<rparr>)"
  proof (cases "to_read = []")
    case True
    then show ?thesis using assms(1-3) e0
      by (simp add: try_body_def list_blobs_def Let_def tr[symmetric])
  next
    case False
    then have c: "candidate_files ft fp (blobs_under st pfx d) \<noteq> []" using cn by blast
    show ?thesis using assms(1-3) False c un
      by (simp add: try_body_def list_blobs_def Let_def tr[symmetric] pf
               split del: if_split)
         (simp add: write_log_def Let_def)
  qed
  then show ?thesis
    by (auto simp: read_gcs_files_to_dataframes_aserta_def)
qed

lemma split_str_single: "(\<exists>w. split_str c s = [w]) = (c \<notin> set s)"
  by (induction s) (auto split: list.splits)

lemma basename_trailing_segment: "basename name = trailing_segment name"
proof (induction name)
  case Nil
  then show ?case by (simp add: basename_def trailing_segment_def)
next
  case (Cons x xs)
  show ?case
  proof (cases "x = CHR ''/''")
    case True
    then show ?thesis using Cons
      by (simp add: basename_def trailing_segment_def takeWhile_append)
  next
    case False
    show ?thesis
    proof (cases "CHR ''/'' \<in> set xs")
      case True
      then obtain w v ws where "split_str CHR ''/'' xs = w # v # ws"
        using split_str_single[of "CHR ''/''" xs] split_str_not_Nil[of "CHR ''/''" xs]
        by (metis list.exhaust)
      then show ?thesis using Cons False True
        by (auto simp: basename_def trailing_segment_def takeWhile_append)
    next
      case F: False
      then show ?thesis using False
        by (simp add: basename_def trailing_segment_def split_str_no_sep takeWhile_append)
    qed
  qed
qed

lemma startswith_prefix: "startswith s p = prefix p s"
proof
  assume "startswith s p"
  then have "s = p @ drop (length p) s"
    by (metis append_take_drop_id startswith_def)
  then show "prefix p s" by (metis prefixI)
next
  assume "prefix p s"
  then obtain u where "s = p @ u" by (auto simp: prefix_def)
  then show "startswith s p" by (simp add: startswith_def)
qed

lemma endswith_suffix: "endswith s t = suffix t s"
proof
  assume "endswith s t"
  then have "s = take (length s - length t) s @ t"
    by (metis append_take_drop_id endswith_def)
  then show "suffix t s" by (metis suffixI)
next
  assume "suffix t s"
  then obtain u where "s = u @ t" by (auto simp: suffix_def)
  then show "endswith s t" by (simp add: endswith_def)
qed

lemma run_nothing_to_read:
  assumes "files_to_read rlf (if rlf then ledger_names st pfx else [])
             (candidate_files ft fp (blobs_under st pfx d)) = []"
  shows "read_gcs_files_to_dataframes_aserta e st pfx ft fp d rlf =
           \<lparr>returned = Inr empty_df, bucket_after = st, uploaded = None\<rparr>"
proof (cases "\<not> client_ok e \<or> (\<exists>ex. read_log e st pfx rlf = Inl ex) \<or> \<not> list_ok e")
  case True
  then show ?thesis by (rule run_setup_fails)
next
  case False
  then obtain far where far: "read_log e st pfx rlf = Inr far"
    by (cases "read_log e st pfx rlf") auto
  have f: "far = (if rlf then ledger_names st pfx else [])" using far by (rule read_log_Inr)
  show ?thesis
    using run_setup_ok[OF _ far _ refl refl refl, of ft fp d] False assms
    by (simp add: f successful_frames_def)
qed

lemma run_cases:
  obtains
    (fails) "read_gcs_files_to_dataframes_aserta e st pfx ft fp d rlf =
               \<lparr>returned = Inr empty_df, bucket_after = st, uploaded = None\<rparr>"
  | (reads) far where "client_ok e" "read_log e st pfx rlf = Inr far" "list_ok e"
proof (cases "\<not> client_ok e \<or> (\<exists>ex. read_log e st pfx rlf = Inl ex) \<or> \<not> list_ok e")
  case True
  then show ?thesis using fails run_setup_fails by blast
next
  case False
  then obtain far where "read_log e st pfx rlf = Inr far"
    by (cases "read_log e st pfx rlf") auto
  then show ?thesis using False reads by blast
qed

lemma run_no_frames:
  assumes "\<And>far. successful_frames e st ft
             (files_to_read rlf far (candidate_files ft fp (blobs_under st pfx d))) = []"
  shows "read_gcs_files_to_dataframes_aserta e st pfx ft fp d rlf =
           \<lparr>returned = Inr empty_df, bucket_after = st, uploaded = None\<rparr>"
proof (cases rule: run_cases[of e st pfx ft fp d rlf])
  case fails
  then show ?thesis .
next
  case (reads far)
  show ?thesis
    using run_setup_ok[OF reads refl refl refl, of ft fp d] assms[of far] by simp
qed

lemma read_one_upload:
  "read_one (e\<lparr>upload_ok := b\<rparr>) st ft name = read_one e st ft name"
  by (simp add: read_one_def split: option.splits)

lemma successful_frames_upload:
  "successful_frames (e\<lparr>upload_ok := b\<rparr>) st ft names = successful_frames e st ft names"
  by (simp add: successful_frames_def read_one_upload)

lemma read_log_upload: "read_log (e\<lparr>upload_ok := b\<rparr>) st pfx rlf = read_log e st pfx rlf"
  by (simp add: read_log_def split: option.splits)

lemma returned_setup_ok:
  assumes "client_ok e" "read_log e st pfx rlf = Inr far" "list_ok e"
  shows "returned (read_gcs_files_to_dataframes_aserta e st pfx ft fp d rlf) =
           Inr (pd_concat (successful_frames e st ft
                  (files_to_read rlf far (candidate_files ft fp (blobs_under st pfx d)))))"
  using run_setup_ok[OF assms refl refl refl, of ft fp d]
  by (simp add: pd_concat_def empty_df_def)

lemma returned_upload_independent:
  "returned (read_gcs_files_to_dataframes_aserta (e\<lparr>upload_ok := b\<rparr>) st pfx ft fp d rlf) =
   returned (read_gcs_files_to_dataframes_aserta e st pfx ft fp d rlf)"
proof (cases "\<not> client_ok e \<or> (\<exists>ex. read_log e st pfx rlf = Inl ex) \<or> \<not> list_ok e")
  case True
  then have "\<not> client_ok (e\<lparr>upload_ok := b\<rparr>)
               \<or> (\<exists>ex. read_log (e\<lparr>upload_ok := b\<rparr>) st pfx rlf = Inl ex)
               \<or> \<not> list_ok (e\<lparr>upload_ok := b\<rparr>)"
    by (simp add: read_log_upload)
  then show ?thesis using True by (simp add: run_setup_fails)
next
  case False
  then obtain far where far: "read_log e st pfx rlf = Inr far"
    by (cases "read_log e st pfx rlf") auto
  have far': "read_log (e\<lparr>upload_ok := b\<rparr>) st pfx rlf = Inr far"
    using far by (simp add: read_log_upload)
  show ?thesis
    using returned_setup_ok[OF _ far, of ft fp d] returned_setup_ok[OF _ far', of ft fp d] False
    by (simp add: successful_frames_upload)
qed

lemma ledger_names_reads_back: "n \<in> set (ledger_names st pfx) \<Longrightarrow> reads_back n"
  by (auto simp: ledger_names_def parse_log_reads_back split: option.splits)

lemma read_log_reads_back:
  "read_log e st pfx rlf = Inr far \<Longrightarrow> n \<in> set far \<Longrightarrow> reads_back n"
  using read_log_Inr[of e st pfx rlf far] ledger_names_reads_back[of n st pfx]
  by (cases rlf) auto

lemma ledger_names_update:
  "ledger_names (AList.update (log_blob_name pfx) content st) pfx = parse_log content"
  by (simp add: ledger_names_def update_conv')

section \<open>The bucket after a run\<close>

lemma candidate_files_update:
  "candidate_files ft fp (blobs_under (AList.update (log_blob_name p) c st) pfx d) =
   candidate_files ft fp (blobs_under st pfx d)"
  by (simp add: candidate_files_def blobs_under_def update_keys basename_log_blob_name)

lemma run_read_cases:
  obtains
    (unchanged) "bucket_after (read_gcs_files_to_dataframes_aserta e st pfx ft fp d True) = st"
  | (written) to_read upd where
      "to_read = files_to_read True (ledger_names st pfx)
                   (candidate_files ft fp (blobs_under st pfx d))"
      "upd = snd (process_files e st ft to_read ([], map basename to_read))"
      "\<exists>m\<in>set to_read. parsed_ok e st ft m"
      "read_gcs_files_to_dataframes_aserta e st pfx ft fp d True =
         \<lparr>returned = Inr (pd_concat (successful_frames e st ft to_read)),
          bucket_after = AList.update (log_blob_name pfx)
                           (join_str [CHR 0x0A] (ledger_names st pfx @ upd)) st,
          uploaded = Some (join_str [CHR 0x0A] (ledger_names st pfx @ upd))\<rparr>"
proof (cases rule: run_cases[of e st pfx ft fp d True])
  case fails
  then show ?thesis using unchanged by simp
next
  case (reads far)
  have far: "far = ledger_names st pfx" using read_log_Inr[OF reads(2)] by simp
  let ?tr = "files_to_read True far (candidate_files ft fp (blobs_under st pfx d))"
  let ?upd = "snd (process_files e st ft ?tr ([], map basename ?tr))"
  note run = run_setup_ok[OF reads refl refl refl, of ft fp d]
  show ?thesis
  proof (cases "successful_frames e st ft ?tr \<noteq> [] \<and> upload_ok e")
    case True
    then have "\<exists>m\<in>set ?tr. parsed_ok e st ft m"
      by (auto simp: successful_frames_Nil_iff)
    then show ?thesis
      using written[of ?tr ?upd] run True by (simp add: far write_log_def Let_def)
  next
    case False
    then show ?thesis using unchanged run by (auto simp: write_log_def Let_def)
  qed
qed

lemma candidate_files_after:
  "candidate_files ft fp
     (blobs_under (bucket_after (read_gcs_files_to_dataframes_aserta e st pfx ft fp d True))
        pfx d) =
   candidate_files ft fp (blobs_under st pfx d)"
  by (cases rule: run_read_cases[of e st pfx ft fp d]) (simp_all add: candidate_files_update)

lemma pending_parsed:
  assumes "m \<in> set names" "parsed_ok e st ft m"
  shows "set (snd (process_files e st ft names (dfs, map basename names))) =
           basename ` {n \<in> set names. parsed_ok e st ft n}"
  by (simp add: process_files_pending_set supported_not_failed[OF assms(2)])

lemma ledger_after_subset:
  assumes "\<forall>c\<in>set (candidate_files ft fp (blobs_under st pfx d)). reads_back (basename c)"
  shows "set (ledger_names
                (bucket_after (read_gcs_files_to_dataframes_aserta e st pfx ft fp d True)) pfx)
           \<subseteq> set (ledger_names st pfx) \<union>
              basename ` {c \<in> set (files_to_read True (ledger_names st pfx)
                                     (candidate_files ft fp (blobs_under st pfx d))).
                          parsed_ok e st ft c}"
proof (cases rule: run_read_cases[of e st pfx ft fp d])
  case unchanged
  then show ?thesis by auto
next
  case (written to_read upd)
  obtain m where m: "m \<in> set to_read" "parsed_ok e st ft m" using written(3) by blast
  have u: "set upd = basename ` {n \<in> set to_read. parsed_ok e st ft n}"
    unfolding written(2) by (rule pending_parsed[OF m])
  have "\<forall>x\<in>set (ledger_names st pfx @ upd). reads_back x"
    using assms u ledger_names_reads_back[of _ st pfx]
    by (auto simp: written(1) files_to_read_def)
  then have "parse_log (join_str [CHR 0x0A] (ledger_names st pfx @ upd)) =
               ledger_names st pfx @ upd"
    by (rule parse_log_join_reads_back)
  then show ?thesis using u by (simp add: written(4) ledger_names_update written(1))
qed

lemma ledger_after_superset:
  "set (ledger_names st pfx)
     \<subseteq> set (ledger_names
              (bucket_after (read_gcs_files_to_dataframes_aserta e st pfx ft fp d True)) pfx)"
proof (cases rule: run_read_cases[of e st pfx ft fp d])
  case unchanged
  then show ?thesis by simp
next
  case (written to_read upd)
  have "n \<in> set (parse_log n)" if "n \<in> set (ledger_names st pfx)" for n
    using ledger_names_reads_back[OF that] by (simp add: reads_back_def)
  then show ?thesis
    by (auto simp: written(4) ledger_names_update set_parse_log_join)
qed

lemma ledger_after_runs:
  "set (ledger_names st pfx) \<subseteq> set (ledger_names (runs es st pfx ft fp d True) pfx)"
proof (induction es arbitrary: st)
  case Nil
  then show ?case by simp
next
  case (Cons e es)
  show ?case
    using ledger_after_superset[of st pfx e ft fp d]
      Cons.IH[of "bucket_after (read_gcs_files_to_dataframes_aserta e st pfx ft fp d True)"]
    by auto
qed

lemma run_written:
  assumes "client_ok e" "read_log e st pfx True = Inr far" "list_ok e" "upload_ok e"
    and "to_read = files_to_read True far (candidate_files ft fp (blobs_under st pfx d))"
    and "m \<in> set to_read" "parsed_ok e st ft m"
    and "upd = snd (process_files e st ft to_read ([], map basename to_read))"
  shows "read_gcs_files_to_dataframes_aserta e st pfx ft fp d True =
           \<lparr>returned = Inr (pd_concat (successful_frames e st ft to_read)),
            bucket_after = AList.update (log_blob_name pfx)
                             (join_str [CHR 0x0A] (far @ upd)) st,
            uploaded = Some (join_str [CHR 0x0A] (far @ upd))\<rparr>"
proof -
  have "successful_frames e st ft to_read \<noteq> []"
    using assms(6,7) by (auto simp: successful_frames_Nil_iff)
  then show ?thesis
    using run_setup_ok[OF assms(1-3) assms(5) refl assms(8)] assms(4)
    by (simp add: write_log_def Let_def)
qed

lemma pending_all_parsed:
  assumes "\<forall>n\<in>set names. parsed_ok e st ft n"
  shows "snd (process_files e st ft names (dfs, map basename names)) = map basename names"
proof -
  have nf: "\<forall>n\<in>set names. \<not> read_failed e st ft n"
    using assms by (auto simp: parsed_ok_def read_failed_def split: sum.splits)
  have "snd (process_files e st ft names (dfs, [] @ map basename names)) =
          [] @ map basename (filter (\<lambda>n. \<not> read_failed e st ft n) names)"
    by (rule process_files_pending_exact) (use nf in auto)
  then show ?thesis using nf by simp
qed

lemma frames_with_rows:
  assumes "n \<in> set names" "read_one e st ft n = Inr (Some df)" "df \<noteq> []"
  shows "pd_concat (successful_frames e st ft names) \<noteq> []"
proof -
  have "set_column ''file'' (Text (basename n)) df \<in> set (successful_frames e st ft names)"
    using assms(1,2) by (force simp: successful_frames_def)
  moreover have "set_column ''file'' (Text (basename n)) df \<noteq> []"
    using assms(3) by (simp add: set_column_def)
  ultimately show ?thesis by (auto simp: pd_concat_def)
qed

lemma recorded_after_run:
  assumes "client_ok e" "read_log e st pfx True = Inr far" "list_ok e" "upload_ok e"
    and "b \<in> set (files_to_read True far (candidate_files ft fp (blobs_under st pfx d)))"
    and "parsed_ok e st ft b"
    and "reads_back (basename b)"
  shows "basename b \<in> set (ledger_names
           (bucket_after (read_gcs_files_to_dataframes_aserta e st pfx ft fp d True)) pfx)"
proof -
  let ?tr = "files_to_read True far (candidate_files ft fp (blobs_under st pfx d))"
  let ?upd = "snd (process_files e st ft ?tr ([], map basename ?tr))"
  have u: "basename b \<in> set ?upd"
    using assms(5,6) by (simp add: pending_parsed[OF assms(5,6)])
  have "basename b \<in> set (parse_log (basename b))"
    using assms(7) by (simp add: reads_back_def)
  then have "basename b \<in> set (parse_log (join_str [CHR 0x0A] (far @ ?upd)))"
    using u by (auto simp: set_parse_log_join)
  then show ?thesis
    by (simp add: run_written[OF assms(1-4) refl assms(5,6) refl] ledger_names_update)
qed

section \<open>Runs on the example buckets\<close>

lemmas run_defs =
  read_gcs_files_to_dataframes_aserta_def try_body_def read_log_def list_blobs_def
  blobs_under_def candidate_files_def files_to_read_def read_one_def write_log_def
  log_blob_name_def os_path_join_def replace_backslash_def log_filename_def basename_def
  startswith_def endswith_def parse_log_def strip_def isspace_def set_column_def
  pd_concat_def empty_df_def ledger_names_def parsed_ok_def read_failed_def
  example_reader_def env_ok_def env_upload_fails_def Let_def

lemma run_same_name:
  "read_gcs_files_to_dataframes_aserta env_ok bucket_same_name ''d'' ''.csv'' None False True =
     \<lparr>returned = Inr [[(''value'', Text ''1''), (''file'', Text ''x.csv'')]],
      bucket_after = bucket_same_name @ [(''d/file_already_read.txt'', ''x.csv'')],
      uploaded = Some ''x.csv''\<rparr>"
  by (simp add: run_defs bucket_same_name_def)

lemma run_spaced_name:
  "read_gcs_files_to_dataframes_aserta env_ok bucket_spaced_name ''d'' ''.csv'' None False True =
     \<lparr>returned = Inr [[(''value'', Text ''1''), (''file'', Text '' x.csv'')],
                      [(''value'', Text ''2''), (''file'', Text '' x.csv'')]],
      bucket_after = bucket_spaced_name @
                       [(''d/file_already_read.txt'', '' x.csv'' @ [CHR 0x0A] @ '' x.csv'')],
      uploaded = Some ('' x.csv'' @ [CHR 0x0A] @ '' x.csv'')\<rparr>"
  by (simp add: run_defs bucket_spaced_name_def)

lemma run_spaced_name_again:
  "read_gcs_files_to_dataframes_aserta env_ok
     (bucket_spaced_name @ [(''d/file_already_read.txt'', '' x.csv'' @ [CHR 0x0A] @ '' x.csv'')])
     ''d'' ''.csv'' None False True =
     \<lparr>returned = Inr [[(''value'', Text ''1''), (''file'', Text '' x.csv'')],
                      [(''value'', Text ''2''), (''file'', Text '' x.csv'')]],
      bucket_after = bucket_spaced_name @
                       [(''d/file_already_read.txt'',
                         ''x.csv'' @ [CHR 0x0A] @ ''x.csv'' @ [CHR 0x0A] @
                         '' x.csv'' @ [CHR 0x0A] @ '' x.csv'')],
      uploaded = Some (''x.csv'' @ [CHR 0x0A] @ ''x.csv'' @ [CHR 0x0A] @
                         '' x.csv'' @ [CHR 0x0A] @ '' x.csv'')\<rparr>"
  by (simp add: run_defs bucket_spaced_name_def)

lemma run_no_rows:
  "read_gcs_files_to_dataframes_aserta env_ok bucket_no_rows ''d'' ''.csv'' None False True =
     \<lparr>returned = Inr [],
      bucket_after = bucket_no_rows @ [(''d/file_already_read.txt'', ''h.csv'')],
      uploaded = Some ''h.csv''\<rparr>"
  by (simp add: run_defs bucket_no_rows_def)

lemma run_two_good_upload_fails:
  "read_gcs_files_to_dataframes_aserta env_upload_fails bucket_two_good ''d'' ''.csv'' None
     False True =
     \<lparr>returned = Inr [[(''value'', Text ''1''), (''file'', Text ''x.csv'')],
                      [(''value'', Text ''2''), (''file'', Text ''x.csv'')]],
      bucket_after = bucket_two_good,
      uploaded = Some (''x.csv'' @ [CHR 0x0A] @ ''x.csv'')\<rparr>"
  by (simp add: run_defs bucket_two_good_def)

lemma run_shared_abc:
  "read_gcs_files_to_dataframes_aserta env_ok bucket_shared_abc ''d'' ''.csv'' None False True =
     \<lparr>returned = Inr [[(''value'', Text ''1''), (''file'', Text ''x.csv'')],
                      [(''value'', Text ''3''), (''file'', Text ''y.csv'')]],
      bucket_after = bucket_shared_abc @
                       [(''d/file_already_read.txt'', ''x.csv'' @ [CHR 0x0A] @ ''y.csv'')],
      uploaded = Some (''x.csv'' @ [CHR 0x0A] @ ''y.csv'')\<rparr>"
  by (simp add: run_defs bucket_shared_abc_def)

lemma run_spaced_abc:
  "read_gcs_files_to_dataframes_aserta env_ok bucket_spaced_abc ''d'' ''.csv'' None False True =
     \<lparr>returned = Inr [[(''value'', Text ''1''), (''file'', Text '' b.csv'')],
                      [(''value'', Text ''3''), (''file'', Text ''c.csv'')]],
      bucket_after = bucket_spaced_abc @
                       [(''d/file_already_read.txt'', '' b.csv'' @ [CHR 0x0A] @ ''c.csv'')],
      uploaded = Some ('' b.csv'' @ [CHR 0x0A] @ ''c.csv'')\<rparr>"
  by (simp add: run_defs bucket_spaced_abc_def)

section \<open>The properties\<close>

text \<open>
  Claim C2. Whatever the arguments and whatever the collaborators do (the client, the
  listing, the ledger read, a download, a reader or the ledger upload may raise), the call
  returns a data frame: no exception leaves the function.
\<close>

theorem never_raises:
  "\<exists>df. returned (read_gcs_files_to_dataframes_aserta e st pfx file_type file_prefix
                    delimiter read_log_file) = Inr df"
  by (cases "returned (try_body e st pfx file_type file_prefix delimiter read_log_file)")
     (simp_all add: read_gcs_files_to_dataframes_aserta_def Let_def)

text \<open>
  Claim C7. The candidates are the listed blobs, in listing order, whose name ends with
  \<open>file_type\<close>, whose trailing path segment (what follows the last \<open>/\<close>) starts with
  \<open>file_prefix\<close> when one is given, and whose trailing path segment is not
  \<open>file_already_read.txt\<close>. For the files \<open>a_data.csv\<close>, \<open>b_other.csv\<close> and
  \<open>a_data.txt\<close> with file type \<open>.csv\<close> and prefix \<open>a_\<close>, only \<open>a_data.csv\<close> is a
  candidate.
\<close>

theorem candidate_filter_correct:
  "candidate_files file_type file_prefix blobs =
     filter (\<lambda>name. suffix file_type name
                \<and> (case file_prefix of
                      None \<Rightarrow> True
                    | Some p \<Rightarrow> prefix p (trailing_segment name))
                \<and> trailing_segment name \<noteq> ''file_already_read.txt'') blobs
   \<and> candidate_files ''.csv'' (Some ''a_'') [''a_data.csv'', ''b_other.csv'', ''a_data.txt'']
       = [''a_data.csv'']"
proof
  show "candidate_files file_type file_prefix blobs =
     filter (\<lambda>name. suffix file_type name
                \<and> (case file_prefix of
                      None \<Rightarrow> True
                    | Some p \<Rightarrow> prefix p (trailing_segment name))
                \<and> trailing_segment name \<noteq> ''file_already_read.txt'') blobs"
    by (simp add: candidate_files_def endswith_suffix startswith_prefix
          basename_trailing_segment log_filename_def cong: option.case_cong)
  show "candidate_files ''.csv'' (Some ''a_'') [''a_data.csv'', ''b_other.csv'', ''a_data.txt'']
       = [''a_data.csv'']"
    by (simp add: candidate_files_def endswith_def startswith_def basename_def log_filename_def)
qed

text \<open>
  Claim C8. When the candidate set is empty, or when the ledger is in use and the trailing
  name of every candidate is already in the ledger, the call returns the empty frame, the
  bucket is left as it was and \<open>upload_from_string\<close> is not called; this holds whatever
  the collaborators do (no download or reader is reached).
\<close>

theorem early_exit_no_write:
  assumes "candidate_files file_type file_prefix (blobs_under st pfx delimiter) = []
           \<or> (read_log_file \<and>
              (\<forall>name \<in> set (candidate_files file_type file_prefix (blobs_under st pfx delimiter)).
                  basename name \<in> set (ledger_names st pfx)))"
  shows "read_gcs_files_to_dataframes_aserta e st pfx file_type file_prefix delimiter
           read_log_file =
           \<lparr>returned = Inr empty_df, bucket_after = st, uploaded = None\<rparr>"
proof (rule run_nothing_to_read)
  show "files_to_read read_log_file (if read_log_file then ledger_names st pfx else [])
          (candidate_files file_type file_prefix (blobs_under st pfx delimiter)) = []"
    using assms by (auto simp: files_to_read_def filter_empty_conv)
qed

theorem early_exit_no_write_witness:
  "read_gcs_files_to_dataframes_aserta env_ok bucket_done ''d'' ''.csv'' None False True =
     \<lparr>returned = Inr empty_df, bucket_after = bucket_done, uploaded = None\<rparr>
   \<and> candidate_files ''.csv'' None (blobs_under bucket_done ''d'' False) = [''d/x.csv'']
   \<and> ledger_names bucket_done ''d'' = [''x.csv'']"
proof -
  have c: "candidate_files ''.csv'' None (blobs_under bucket_done ''d'' False) = [''d/x.csv'']"
    by (simp add: candidate_files_def blobs_under_def bucket_done_def endswith_def
          startswith_def basename_def log_filename_def)
  have l: "ledger_names bucket_done ''d'' = [''x.csv'']"
    by (simp add: ledger_names_def bucket_done_def log_blob_name_def os_path_join_def
          replace_backslash_def log_filename_def startswith_def endswith_def parse_log_def
          strip_def isspace_def)
  have b: "basename ''d/x.csv'' = ''x.csv''" by (simp add: basename_def)
  show ?thesis
    using early_exit_no_write[of "''.csv''" None bucket_done "''d''" False True env_ok] c l b
    by simp
qed

text \<open>
  Claim C9. For a file type other than \<open>.xlsx\<close> and \<open>.csv\<close> the call returns the empty
  frame, leaves the bucket as it was and never calls \<open>upload_from_string\<close>, whatever the
  ledger setting and the candidates; and the trailing name of every file skipped as
  unsupported is still in the pending list when the loop ends.
\<close>

theorem unsupported_type_no_write:
  assumes "file_type \<noteq> ''.xlsx''" and "file_type \<noteq> ''.csv''"
  shows "read_gcs_files_to_dataframes_aserta e st pfx file_type file_prefix delimiter
           read_log_file =
           \<lparr>returned = Inr empty_df, bucket_after = st, uploaded = None\<rparr>
         \<and> (\<forall>name \<in> set names.
               read_one e st file_type name = Inr None \<longrightarrow>
               basename name \<in>
                 set (snd (process_files e st file_type names ([], map basename names))))"
proof
  show "read_gcs_files_to_dataframes_aserta e st pfx file_type file_prefix delimiter
           read_log_file =
           \<lparr>returned = Inr empty_df, bucket_after = st, uploaded = None\<rparr>"
    by (rule run_no_frames) (simp add: unsupported_frames[OF assms])
  show "\<forall>name \<in> set names.
               read_one e st file_type name = Inr None \<longrightarrow>
               basename name \<in>
                 set (snd (process_files e st file_type names ([], map basename names)))"
    by (auto simp: process_files_pending_set read_failed_def)
qed

theorem unsupported_type_no_write_witness:
  "read_gcs_files_to_dataframes_aserta env_ok bucket_json ''d'' ''.json'' None False True =
     \<lparr>returned = Inr empty_df, bucket_after = bucket_json, uploaded = None\<rparr>
   \<and> candidate_files ''.json'' None (blobs_under bucket_json ''d'' False) = [''d/a.json'']
   \<and> read_one env_ok bucket_json ''.json'' ''d/a.json'' = Inr None
   \<and> ''a.json'' \<in> set (snd (process_files env_ok bucket_json ''.json'' [''d/a.json'']
                             ([], map basename [''d/a.json''])))"
proof -
  have c: "candidate_files ''.json'' None (blobs_under bucket_json ''d'' False) = [''d/a.json'']"
    by (simp add: candidate_files_def blobs_under_def bucket_json_def endswith_def
          startswith_def basename_def log_filename_def)
  have r: "read_one env_ok bucket_json ''.json'' ''d/a.json'' = Inr None"
    by (simp add: read_one_def env_ok_def bucket_json_def)
  have b: "basename ''d/a.json'' = ''a.json''" by (simp add: basename_def)
  have n1: "''.json'' \<noteq> ''.xlsx''" and n2: "''.json'' \<noteq> ''.csv''" by simp_all
  show ?thesis
    using unsupported_type_no_write[OF n1 n2, of env_ok bucket_json "''d''" None False True
            "[''d/a.json'']"] c r b
    by simp
qed

text \<open>
  Claim C6. In a run that reaches the loop and parses at least one file, a ledger upload
  that raises changes nothing in what is returned: the call returns the concatenation of
  the frames of all parsed files, the same value as with an upload that succeeds, and the
  bucket keeps its previous ledger.
\<close>

theorem upload_failure_keeps_data:
  assumes "\<not> upload_ok e"
    and "client_ok e" and "read_log e st pfx read_log_file = Inr files_already_read"
    and "list_ok e"
    and "to_read = files_to_read read_log_file files_already_read
                     (candidate_files file_type file_prefix (blobs_under st pfx delimiter))"
    and "\<exists>name \<in> set to_read. parsed_ok e st file_type name"
  shows "returned (read_gcs_files_to_dataframes_aserta e st pfx file_type file_prefix
                     delimiter read_log_file) =
           Inr (pd_concat (successful_frames e st file_type to_read))
         \<and> returned (read_gcs_files_to_dataframes_aserta e st pfx file_type file_prefix
                     delimiter read_log_file) =
           returned (read_gcs_files_to_dataframes_aserta (e\<lparr>upload_ok := True\<rparr>) st pfx
                     file_type file_prefix delimiter read_log_file)
         \<and> bucket_after (read_gcs_files_to_dataframes_aserta e st pfx file_type file_prefix
                     delimiter read_log_file) = st"
proof -
  have b: "bucket_after (read_gcs_files_to_dataframes_aserta e st pfx file_type file_prefix
                     delimiter read_log_file) = st"
    using run_setup_ok[OF assms(2-4) refl refl refl, of file_type "file_prefix" "delimiter"] assms(1)
    by (simp add: write_log_def Let_def)
  show ?thesis
    using returned_setup_ok[OF assms(2-4), of file_type "file_prefix" "delimiter"] b
    by (simp add: assms(5) returned_upload_independent)
qed

theorem upload_failure_keeps_data_witness:
  "returned (read_gcs_files_to_dataframes_aserta env_upload_fails bucket_abc ''d'' ''.csv''
              None False True) =
     Inr [[(''value'', Text ''1''), (''file'', Text ''a.csv'')],
          [(''value'', Text ''3''), (''file'', Text ''c.csv'')]]
   \<and> bucket_after (read_gcs_files_to_dataframes_aserta env_upload_fails bucket_abc ''d''
              ''.csv'' None False True) = bucket_abc
   \<and> \<not> upload_ok env_upload_fails"
proof -
  have c: "candidate_files ''.csv'' None (blobs_under bucket_abc ''d'' False) =
             [''d/a.csv'', ''d/b.csv'', ''d/c.csv'']"
    by (simp add: candidate_files_def blobs_under_def bucket_abc_def endswith_def
          startswith_def basename_def log_filename_def)
  have l: "read_log env_upload_fails bucket_abc ''d'' True = Inr []"
    by (simp add: read_log_def env_upload_fails_def env_ok_def bucket_abc_def
          log_blob_name_def os_path_join_def replace_backslash_def log_filename_def
          startswith_def endswith_def)
  have t: "[''d/a.csv'', ''d/b.csv'', ''d/c.csv''] = files_to_read True []
             (candidate_files ''.csv'' None (blobs_under bucket_abc ''d'' False))"
    by (simp add: c files_to_read_def)
  have p: "\<exists>name \<in> set [''d/a.csv'', ''d/b.csv'', ''d/c.csv''].
             parsed_ok env_upload_fails bucket_abc ''.csv'' name"
    by (simp add: parsed_ok_def read_one_def env_upload_fails_def env_ok_def bucket_abc_def
          example_reader_def)
  have s: "pd_concat (successful_frames env_upload_fails bucket_abc ''.csv''
             [''d/a.csv'', ''d/b.csv'', ''d/c.csv'']) =
           [[(''value'', Text ''1''), (''file'', Text ''a.csv'')],
            [(''value'', Text ''3''), (''file'', Text ''c.csv'')]]"
    by (simp add: pd_concat_def successful_frames_def read_one_def env_upload_fails_def
          env_ok_def bucket_abc_def example_reader_def set_column_def basename_def)
  have u: "\<not> upload_ok env_upload_fails" and k: "client_ok env_upload_fails"
    and li: "list_ok env_upload_fails"
    by (simp_all add: env_upload_fails_def env_ok_def)
  show ?thesis
    using upload_failure_keeps_data[OF u k l li t p] s u by simp
qed

text \<open>
  Claim C3 (partial-failure isolation), as stated, fails when the failing file shares its
  trailing name with a file that parses. In the bucket \<open>bucket_shared_abc\<close> the
  candidates are \<open>d/p/x.csv\<close>, \<open>d/q/x.csv\<close> and \<open>d/r/y.csv\<close>; the
  first and the third parse and the second raises in its parser. The ledger after the run
  holds \<open>x.csv\<close> and \<open>y.csv\<close>, and \<open>x.csv\<close> is the trailing name
  of the failed file too: the next run has nothing to read. In the bucket
  \<open>bucket_spaced_abc\<close> the file that parses is \<open>d/ b.csv\<close>, whose trailing
  name starts with a space, and the file that fails is \<open>d/b.csv\<close>: the ledger is
  written with the name as it is and read stripped, so that the ledger read after the run
  holds \<open>b.csv\<close>, the name of the failed file, and the next run reads the parsed file
  again and skips the failed one.
\<close>

theorem partial_failure_counterexample:
  "candidate_files ''.csv'' None (blobs_under bucket_shared_abc ''d'' False) =
     [''d/p/x.csv'', ''d/q/x.csv'', ''d/r/y.csv'']
   \<and> ledger_names bucket_shared_abc ''d'' = []
   \<and> parsed_ok env_ok bucket_shared_abc ''.csv'' ''d/p/x.csv''
   \<and> read_failed env_ok bucket_shared_abc ''.csv'' ''d/q/x.csv''
   \<and> parsed_ok env_ok bucket_shared_abc ''.csv'' ''d/r/y.csv''
   \<and> basename ''d/q/x.csv'' = ''x.csv''
   \<and> uploaded (read_gcs_files_to_dataframes_aserta env_ok bucket_shared_abc ''d'' ''.csv''
                 None False True) = Some (''x.csv'' @ [CHR 0x0A] @ ''y.csv'')
   \<and> ledger_names
        (bucket_after (read_gcs_files_to_dataframes_aserta env_ok bucket_shared_abc ''d''
           ''.csv'' None False True)) ''d'' = [''x.csv'', ''y.csv'']
   \<and> files_to_read True
        (ledger_names
           (bucket_after (read_gcs_files_to_dataframes_aserta env_ok bucket_shared_abc ''d''
              ''.csv'' None False True)) ''d'')
        (candidate_files ''.csv'' None
           (blobs_under
              (bucket_after (read_gcs_files_to_dataframes_aserta env_ok bucket_shared_abc ''d''
                 ''.csv'' None False True)) ''d'' False)) = []
   \<and> candidate_files ''.csv'' None (blobs_under bucket_spaced_abc ''d'' False) =
       [''d/ b.csv'', ''d/b.csv'', ''d/c.csv'']
   \<and> ledger_names bucket_spaced_abc ''d'' = []
   \<and> parsed_ok env_ok bucket_spaced_abc ''.csv'' ''d/ b.csv''
   \<and> read_failed env_ok bucket_spaced_abc ''.csv'' ''d/b.csv''
   \<and> parsed_ok env_ok bucket_spaced_abc ''.csv'' ''d/c.csv''
   \<and> basename ''d/b.csv'' = ''b.csv''
   \<and> ledger_names
        (bucket_after (read_gcs_files_to_dataframes_aserta env_ok bucket_spaced_abc ''d''
           ''.csv'' None False True)) ''d'' = [''b.csv'', ''c.csv'']
   \<and> files_to_read True
        (ledger_names
           (bucket_after (read_gcs_files_to_dataframes_aserta env_ok bucket_spaced_abc ''d''
              ''.csv'' None False True)) ''d'')
        (candidate_files ''.csv'' None
           (blobs_under
              (bucket_after (read_gcs_files_to_dataframes_aserta env_ok bucket_spaced_abc ''d''
                 ''.csv'' None False True)) ''d'' False)) = [''d/ b.csv'']"
  unfolding run_shared_abc run_spaced_abc
  by (simp add: run_defs bucket_shared_abc_def bucket_spaced_abc_def)

text \<open>
  Claim C3, amended. Take a run with \<open>read_log_file = True\<close> whose set-up succeeds and
  whose candidates are \<open>A\<close>, \<open>B\<close>, \<open>C\<close> in this order, none of them in
  the ledger, where \<open>A\<close> and \<open>C\<close> download and parse and \<open>B\<close> raises
  (in the download or in the parser), the trailing name of \<open>B\<close> being that of neither
  other file, and the trailing names of \<open>A\<close> and \<open>C\<close> being names that the
  ledger reader gives back as written. The run returns the rows of \<open>A\<close> followed by
  the rows of \<open>C\<close>, each tagged with its trailing name in the column
  \<open>file\<close>, and uploads the earlier names followed by the names of \<open>A\<close> and
  \<open>C\<close>. The ledger read from the bucket after the run holds exactly these names when
  the upload succeeds and the earlier names when it raises; in both cases it does not hold the
  name of \<open>B\<close>, and \<open>B\<close> is among the files to read of the next run.
\<close>

theorem partial_failure_isolated:
  assumes "client_ok e" and "read_log e st pfx True = Inr files_already_read" and "list_ok e"
    and "candidate_files file_type file_prefix (blobs_under st pfx delimiter) = [A, B, C]"
    and "basename A \<notin> set files_already_read"
    and "basename B \<notin> set files_already_read"
    and "basename C \<notin> set files_already_read"
    and "read_one e st file_type A = Inr (Some dfA)"
    and "read_one e st file_type B = Inl ex"
    and "read_one e st file_type C = Inr (Some dfC)"
    and "basename B \<noteq> basename A" and "basename B \<noteq> basename C"
    and "reads_back (basename A)" and "reads_back (basename C)"
    and "r = read_gcs_files_to_dataframes_aserta e st pfx file_type file_prefix delimiter True"
  shows "r = \<lparr>returned = Inr (set_column ''file'' (Text (basename A)) dfA @
                              set_column ''file'' (Text (basename C)) dfC),
              bucket_after =
                (if upload_ok e
                 then AList.update (log_blob_name pfx)
                        (join_str [CHR 0x0A] (files_already_read @ [basename A, basename C])) st
                 else st),
              uploaded =
                Some (join_str [CHR 0x0A] (files_already_read @ [basename A, basename C]))\<rparr>
         \<and> ledger_names (bucket_after r) pfx =
             (if upload_ok e then files_already_read @ [basename A, basename C]
              else files_already_read)
         \<and> basename B \<notin> set (ledger_names (bucket_after r) pfx)
         \<and> B \<in> set (files_to_read True (ledger_names (bucket_after r) pfx)
                       (candidate_files file_type file_prefix
                          (blobs_under (bucket_after r) pfx delimiter)))"
proof -
  have t: "files_to_read True files_already_read
             (candidate_files file_type file_prefix (blobs_under st pfx delimiter)) = [A, B, C]"
    using assms(4-7) by (simp add: files_to_read_def)
  have f: "successful_frames e st file_type [A, B, C] =
             [set_column ''file'' (Text (basename A)) dfA,
              set_column ''file'' (Text (basename C)) dfC]"
    using assms(8-10) by (simp add: successful_frames_def)
  have u: "snd (process_files e st file_type [A, B, C] ([], map basename [A, B, C])) =
             [basename A, basename C]"
    using assms(8-12) by simp
  have "r = \<lparr>returned = Inr (pd_concat [set_column ''file'' (Text (basename A)) dfA,
                                        set_column ''file'' (Text (basename C)) dfC]),
       bucket_after = fst (write_log e st pfx files_already_read [basename A, basename C]),
       uploaded = snd (write_log e st pfx files_already_read [basename A, basename C])\<rparr>"
    unfolding assms(15)
    using run_setup_ok[OF assms(1-3) t[symmetric] f[symmetric] u[symmetric]] by simp
  then have run: "r = \<lparr>returned = Inr (set_column ''file'' (Text (basename A)) dfA @
                              set_column ''file'' (Text (basename C)) dfC),
              bucket_after =
                (if upload_ok e
                 then AList.update (log_blob_name pfx)
                        (join_str [CHR 0x0A] (files_already_read @ [basename A, basename C])) st
                 else st),
              uploaded =
                Some (join_str [CHR 0x0A] (files_already_read @ [basename A, basename C]))\<rparr>"
    by (simp add: write_log_def Let_def pd_concat_def)
  have before: "ledger_names st pfx = files_already_read"
    using read_log_Inr[OF assms(2)] by simp
  have "\<forall>x \<in> set (files_already_read @ [basename A, basename C]). reads_back x"
    using assms(13,14) read_log_reads_back[OF assms(2)] by auto
  then have written: "parse_log (join_str [CHR 0x0A]
                        (files_already_read @ [basename A, basename C])) =
                      files_already_read @ [basename A, basename C]"
    by (rule parse_log_join_reads_back)
  have led: "ledger_names (bucket_after r) pfx =
               (if upload_ok e then files_already_read @ [basename A, basename C]
                else files_already_read)"
    by (simp add: run ledger_names_update written before)
  have cands: "candidate_files file_type file_prefix (blobs_under (bucket_after r) pfx delimiter)
                 = [A, B, C]"
    by (simp add: run candidate_files_update assms(4))
  have notB: "basename B \<notin> set (ledger_names (bucket_after r) pfx)"
    using assms(6,11,12) by (simp add: led)
  have again: "B \<in> set (files_to_read True (ledger_names (bucket_after r) pfx)
                 (candidate_files file_type file_prefix
                    (blobs_under (bucket_after r) pfx delimiter)))"
    using notB by (simp add: cands files_to_read_def)
  show ?thesis using run led notB again by blast
qed

theorem partial_failure_isolated_witness:
  "read_gcs_files_to_dataframes_aserta env_ok bucket_abc ''d'' ''.csv'' None False True =
     \<lparr>returned = Inr [[(''value'', Text ''1''), (''file'', Text ''a.csv'')],
                       [(''value'', Text ''3''), (''file'', Text ''c.csv'')]],
      bucket_after = bucket_abc @ [(''d/file_already_read.txt'', ''a.csv'' @ [CHR 0x0A] @ ''c.csv'')],
      uploaded = Some (''a.csv'' @ [CHR 0x0A] @ ''c.csv'')\<rparr>
   \<and> read_one env_ok bucket_abc ''.csv'' ''d/b.csv'' = Inl ParseError
   \<and> ledger_names
        (bucket_after (read_gcs_files_to_dataframes_aserta env_ok bucket_abc ''d'' ''.csv''
           None False True)) ''d'' = [''a.csv'', ''c.csv'']
   \<and> ''b.csv'' \<notin> set (ledger_names
        (bucket_after (read_gcs_files_to_dataframes_aserta env_ok bucket_abc ''d'' ''.csv''
           None False True)) ''d'')
   \<and> ''d/b.csv'' \<in> set (files_to_read True
        (ledger_names
           (bucket_after (read_gcs_files_to_dataframes_aserta env_ok bucket_abc ''d'' ''.csv''
              None False True)) ''d'')
        (candidate_files ''.csv'' None
           (blobs_under
              (bucket_after (read_gcs_files_to_dataframes_aserta env_ok bucket_abc ''d''
                 ''.csv'' None False True)) ''d'' False)))"
proof -
  let ?r = "read_gcs_files_to_dataframes_aserta env_ok bucket_abc ''d'' ''.csv'' None False True"
  have c: "candidate_files ''.csv'' None (blobs_under bucket_abc ''d'' False) =
             [''d/a.csv'', ''d/b.csv'', ''d/c.csv'']"
    by (simp add: candidate_files_def blobs_under_def bucket_abc_def endswith_def
          startswith_def basename_def log_filename_def)
  have p: "log_blob_name ''d'' = ''d/file_already_read.txt''"
    by (simp add: log_blob_name_def os_path_join_def replace_backslash_def log_filename_def
          startswith_def endswith_def)
  have l: "read_log env_ok bucket_abc ''d'' True = Inr []"
    by (simp add: read_log_def env_ok_def bucket_abc_def p)
  have ra: "read_one env_ok bucket_abc ''.csv'' ''d/a.csv'' = Inr (Some [[(''value'', Text ''1'')]])"
    and rb: "read_one env_ok bucket_abc ''.csv'' ''d/b.csv'' = Inl ParseError"
    and rc: "read_one env_ok bucket_abc ''.csv'' ''d/c.csv'' = Inr (Some [[(''value'', Text ''3'')]])"
    by (simp_all add: read_one_def env_ok_def bucket_abc_def example_reader_def)
  have b: "basename ''d/a.csv'' = ''a.csv''" "basename ''d/b.csv'' = ''b.csv''"
    "basename ''d/c.csv'' = ''c.csv''"
    by (simp_all add: basename_def)
  have k: "client_ok env_ok" "list_ok env_ok" "upload_ok env_ok" by (simp_all add: env_ok_def)
  have n: "basename ''d/a.csv'' \<notin> set []" "basename ''d/b.csv'' \<notin> set []"
    "basename ''d/c.csv'' \<notin> set []" by simp_all
  have d: "basename ''d/b.csv'' \<noteq> basename ''d/a.csv''"
    "basename ''d/b.csv'' \<noteq> basename ''d/c.csv''" by (simp_all add: b)
  have w: "reads_back (basename ''d/a.csv'')" "reads_back (basename ''d/c.csv'')"
    by (simp_all add: b reads_back_def parse_log_def strip_def isspace_def)
  note iso = partial_failure_isolated[OF k(1) l k(2) c n ra rb rc d w refl]
  have one: "?r = \<lparr>returned = Inr [[(''value'', Text ''1''), (''file'', Text ''a.csv'')],
                       [(''value'', Text ''3''), (''file'', Text ''c.csv'')]],
      bucket_after = bucket_abc @ [(''d/file_already_read.txt'', ''a.csv'' @ [CHR 0x0A] @ ''c.csv'')],
      uploaded = Some (''a.csv'' @ [CHR 0x0A] @ ''c.csv'')\<rparr>"
    using iso[THEN conjunct1] k(3) by (simp add: b p set_column_def bucket_abc_def)
  have two: "ledger_names (bucket_after ?r) ''d'' = [''a.csv'', ''c.csv'']"
    using iso[THEN conjunct2, THEN conjunct1] k(3) by (simp add: b)
  have three: "''b.csv'' \<notin> set (ledger_names (bucket_after ?r) ''d'')"
    using iso[THEN conjunct2, THEN conjunct2, THEN conjunct1] by (simp add: b)
  have four: "''d/b.csv'' \<in> set (files_to_read True (ledger_names (bucket_after ?r) ''d'')
                (candidate_files ''.csv'' None (blobs_under (bucket_after ?r) ''d'' False)))"
    using iso[THEN conjunct2, THEN conjunct2, THEN conjunct2] .
  show ?thesis using one two three four rb by blast
qed

text \<open>
  Claim C5 (ledger round trip). Take a run whose set-up and upload succeed and in which the
  files that parse have the trailing names \<open>x.csv\<close> and \<open>y.csv\<close>, in
  this order, no file that fails having one of these names. The run uploads, under the ledger's
  blob name, the earlier names followed by \<open>x.csv\<close> and \<open>y.csv\<close>,
  joined by newlines; reading the ledger of the bucket after the run as the function reads it
  (split on newline, strip, drop the empty lines) gives back exactly the list of the earlier
  names followed by \<open>x.csv\<close> and \<open>y.csv\<close>.
\<close>

theorem ledger_round_trip:
  assumes "client_ok e" and "read_log e st pfx True = Inr files_already_read" and "list_ok e"
    and "upload_ok e"
    and "to_read = files_to_read True files_already_read
                     (candidate_files file_type file_prefix (blobs_under st pfx delimiter))"
    and "map basename (filter (parsed_ok e st file_type) to_read) = [''x.csv'', ''y.csv'']"
    and "\<forall>name \<in> set to_read.
           \<not> parsed_ok e st file_type name \<longrightarrow> basename name \<notin> {''x.csv'', ''y.csv''}"
  shows "uploaded (read_gcs_files_to_dataframes_aserta e st pfx file_type file_prefix
                     delimiter True) =
           Some (join_str [CHR 0x0A] (files_already_read @ [''x.csv'', ''y.csv'']))
         \<and> map_of (bucket_after (read_gcs_files_to_dataframes_aserta e st pfx file_type
                     file_prefix delimiter True)) (log_blob_name pfx) =
           Some (join_str [CHR 0x0A] (files_already_read @ [''x.csv'', ''y.csv'']))
         \<and> ledger_names (bucket_after (read_gcs_files_to_dataframes_aserta e st pfx file_type
                     file_prefix delimiter True)) pfx =
           files_already_read @ [''x.csv'', ''y.csv'']"
proof -
  let ?P = "parsed_ok e st file_type"
  have ne: "filter ?P to_read \<noteq> []" using assms(6) by auto
  then obtain m where m: "m \<in> set to_read" "?P m"
    by (metis filter_False)
  have nf: "(\<lambda>n. \<not> read_failed e st file_type n) = ?P"
    by (rule ext) (rule supported_not_failed[OF m(2)])
  have names: "\<forall>b \<in> set to_read. ?P b \<longrightarrow> basename b \<in> {''x.csv'', ''y.csv''}"
  proof (intro ballI impI)
    fix b assume "b \<in> set to_read" "?P b"
    then have "basename b \<in> set (map basename (filter ?P to_read))" by simp
    then show "basename b \<in> {''x.csv'', ''y.csv''}" by (simp add: assms(6))
  qed
  have "snd (process_files e st file_type to_read ([], [] @ map basename to_read)) =
          [] @ map basename (filter (\<lambda>n. \<not> read_failed e st file_type n) to_read)"
  proof (rule process_files_pending_exact)
    show "\<forall>b\<in>set to_read. read_failed e st file_type b \<longrightarrow> basename b \<notin> set []" by simp
    show "\<forall>b\<in>set to_read. \<forall>b'\<in>set to_read.
            read_failed e st file_type b \<and> \<not> read_failed e st file_type b' \<longrightarrow>
            basename b \<noteq> basename b'"
      using names assms(7) supported_not_failed[OF m(2)] by metis
  qed
  then have u: "snd (process_files e st file_type to_read ([], map basename to_read)) =
                  [''x.csv'', ''y.csv'']"
    by (simp add: nf assms(6))
  have fr: "successful_frames e st file_type to_read \<noteq> []"
    using m by (auto simp: successful_frames_Nil_iff)
  have rb: "\<forall>n \<in> set (files_already_read @ [''x.csv'', ''y.csv'']). reads_back n"
  proof
    fix n assume "n \<in> set (files_already_read @ [''x.csv'', ''y.csv''])"
    then consider "n \<in> set files_already_read" | "n = ''x.csv''" | "n = ''y.csv''" by auto
    then show "reads_back n"
    proof cases
      case 1
      then show ?thesis using read_log_reads_back[OF assms(2)] by blast
    next
      case 2
      then show ?thesis by (simp add: reads_back_def parse_log_def strip_def isspace_def)
    next
      case 3
      then show ?thesis by (simp add: reads_back_def parse_log_def strip_def isspace_def)
    qed
  qed
  have run: "read_gcs_files_to_dataframes_aserta e st pfx file_type file_prefix delimiter True =
           \<lparr>returned = Inr (pd_concat (successful_frames e st file_type to_read)),
            bucket_after = AList.update (log_blob_name pfx)
              (join_str [CHR 0x0A] (files_already_read @ [''x.csv'', ''y.csv''])) st,
            uploaded = Some (join_str [CHR 0x0A] (files_already_read @ [''x.csv'', ''y.csv'']))\<rparr>"
    using run_setup_ok[OF assms(1-3) assms(5) refl refl] fr assms(4)
    by (simp add: u write_log_def Let_def)
  show ?thesis
    using parse_log_join_reads_back[OF rb]
    by (simp add: run ledger_names_update update_conv')
qed

theorem ledger_round_trip_witness:
  "ledger_names bucket_xy ''d'' = [''w.csv'']
   \<and> map_of (bucket_after (read_gcs_files_to_dataframes_aserta env_ok bucket_xy ''d'' ''.csv''
               None False True)) ''d/file_already_read.txt'' =
       Some (''w.csv'' @ [CHR 0x0A] @ ''x.csv'' @ [CHR 0x0A] @ ''y.csv'')
   \<and> ledger_names (bucket_after (read_gcs_files_to_dataframes_aserta env_ok bucket_xy ''d''
               ''.csv'' None False True)) ''d'' = [''w.csv'', ''x.csv'', ''y.csv'']"
proof -
  have c: "candidate_files ''.csv'' None (blobs_under bucket_xy ''d'' False) =
             [''d/w.csv'', ''d/x.csv'', ''d/y.csv'']"
    by (simp add: candidate_files_def blobs_under_def bucket_xy_def endswith_def
          startswith_def basename_def log_filename_def)
  have p: "log_blob_name ''d'' = ''d/file_already_read.txt''"
    by (simp add: log_blob_name_def os_path_join_def replace_backslash_def log_filename_def
          startswith_def endswith_def)
  have ln: "ledger_names bucket_xy ''d'' = [''w.csv'']"
    by (simp add: ledger_names_def p bucket_xy_def parse_log_def strip_def isspace_def)
  have l: "read_log env_ok bucket_xy ''d'' True = Inr [''w.csv'']"
    using read_log_ok[of env_ok bucket_xy "''d''" True] ln by (simp add: env_ok_def)
  have t: "[''d/x.csv'', ''d/y.csv''] = files_to_read True [''w.csv'']
             (candidate_files ''.csv'' None (blobs_under bucket_xy ''d'' False))"
    by (simp add: c files_to_read_def basename_def)
  have po: "parsed_ok env_ok bucket_xy ''.csv'' ''d/x.csv''"
    "parsed_ok env_ok bucket_xy ''.csv'' ''d/y.csv''"
    by (simp_all add: parsed_ok_def read_one_def env_ok_def bucket_xy_def example_reader_def)
  have m: "map basename (filter (parsed_ok env_ok bucket_xy ''.csv'') [''d/x.csv'', ''d/y.csv''])
             = [''x.csv'', ''y.csv'']"
    by (simp add: po basename_def)
  have a: "\<forall>name \<in> set [''d/x.csv'', ''d/y.csv''].
             \<not> parsed_ok env_ok bucket_xy ''.csv'' name \<longrightarrow>
             basename name \<notin> {''x.csv'', ''y.csv''}"
    by (simp add: po)
  have k: "client_ok env_ok" "list_ok env_ok" "upload_ok env_ok" by (simp_all add: env_ok_def)
  show ?thesis
    using ledger_round_trip[OF k(1) l k(2) k(3) t m a] ln by (simp add: p)
qed

text \<open>
  Claim C1 (ledger soundness), as stated, fails where two files to read have the same trailing
  name. In the bucket \<open>bucket_same_name\<close> the file \<open>d/p/x.csv\<close> fails in its
  parser and \<open>d/q/x.csv\<close> parses: both are read in the run, the ledger after the run
  holds the name \<open>x.csv\<close>, which is the trailing name of the failed file too, and
  the next run has nothing to read, so the failed file is not eligible any more.
\<close>

theorem failed_same_name_counterexample:
  "read_failed env_ok bucket_same_name ''.csv'' ''d/p/x.csv''
   \<and> ledger_names bucket_same_name ''d'' = []
   \<and> files_to_read True (ledger_names bucket_same_name ''d'')
        (candidate_files ''.csv'' None (blobs_under bucket_same_name ''d'' False)) =
       [''d/p/x.csv'', ''d/q/x.csv'']
   \<and> ledger_names
        (bucket_after (read_gcs_files_to_dataframes_aserta env_ok bucket_same_name ''d''
           ''.csv'' None False True)) ''d'' = [''x.csv'']
   \<and> basename ''d/p/x.csv'' = ''x.csv''
   \<and> files_to_read True
        (ledger_names
           (bucket_after (read_gcs_files_to_dataframes_aserta env_ok bucket_same_name ''d''
              ''.csv'' None False True)) ''d'')
        (candidate_files ''.csv'' None
           (blobs_under
              (bucket_after (read_gcs_files_to_dataframes_aserta env_ok bucket_same_name ''d''
                 ''.csv'' None False True)) ''d'' False)) = []"
  unfolding run_same_name by (simp add: run_defs bucket_same_name_def)

text \<open>
  Claim C1, amended. Take a run with \<open>read_log_file = True\<close> on a bucket whose
  candidates have trailing names that the ledger reader gives back as written (no newline, no
  white space at either end). Every name in the ledger after the run was in the ledger before
  the run or is the trailing name of a file that was read and parsed in this run. A file read
  in this run that failed, with no file parsed in this run under the same trailing name, is not
  in the ledger after the run and is among the files to read of the next run.
\<close>

theorem ledger_sound:
  assumes "\<forall>c \<in> set (candidate_files file_type file_prefix (blobs_under st pfx delimiter)).
             reads_back (basename c)"
    and "to_read = files_to_read True (ledger_names st pfx)
                     (candidate_files file_type file_prefix (blobs_under st pfx delimiter))"
    and "st' = bucket_after (read_gcs_files_to_dataframes_aserta e st pfx file_type
                               file_prefix delimiter True)"
  shows "(\<forall>n \<in> set (ledger_names st' pfx).
            n \<in> set (ledger_names st pfx)
            \<or> (\<exists>c \<in> set to_read. parsed_ok e st file_type c \<and> basename c = n))
         \<and> (\<forall>f \<in> set to_read.
              read_failed e st file_type f
              \<and> (\<forall>c \<in> set to_read. parsed_ok e st file_type c \<longrightarrow> basename c \<noteq> basename f)
              \<longrightarrow> basename f \<notin> set (ledger_names st' pfx)
                  \<and> f \<in> set (files_to_read True (ledger_names st' pfx)
                               (candidate_files file_type file_prefix
                                  (blobs_under st' pfx delimiter))))"
proof -
  have sub: "set (ledger_names st' pfx) \<subseteq> set (ledger_names st pfx) \<union>
               basename ` {c \<in> set to_read. parsed_ok e st file_type c}"
    unfolding assms(2,3) using assms(1) by (rule ledger_after_subset)
  have cands: "candidate_files file_type file_prefix (blobs_under st' pfx delimiter) =
                 candidate_files file_type file_prefix (blobs_under st pfx delimiter)"
    unfolding assms(3) by (rule candidate_files_after)
  have one: "\<forall>n \<in> set (ledger_names st' pfx).
            n \<in> set (ledger_names st pfx)
            \<or> (\<exists>c \<in> set to_read. parsed_ok e st file_type c \<and> basename c = n)"
    using sub by auto
  have two: "basename f \<notin> set (ledger_names st' pfx)
             \<and> f \<in> set (files_to_read True (ledger_names st' pfx)
                          (candidate_files file_type file_prefix
                             (blobs_under st' pfx delimiter)))"
    if f: "f \<in> set to_read"
      and n: "\<forall>c \<in> set to_read. parsed_ok e st file_type c \<longrightarrow> basename c \<noteq> basename f"
    for f
  proof -
    have b: "basename f \<notin> set (ledger_names st pfx)"
      and c: "f \<in> set (candidate_files file_type file_prefix (blobs_under st pfx delimiter))"
      using f by (simp_all add: assms(2) files_to_read_def)
    have "basename f \<notin> set (ledger_names st' pfx)"
    proof
      assume "basename f \<in> set (ledger_names st' pfx)"
      then have "basename f \<in> basename ` {c \<in> set to_read. parsed_ok e st file_type c}"
        using sub b by blast
      then obtain c where "c \<in> set to_read" "parsed_ok e st file_type c"
        "basename c = basename f" by force
      then show False using n by blast
    qed
    then show ?thesis using c by (simp add: cands files_to_read_def)
  qed
  show ?thesis using one two by blast
qed

theorem ledger_sound_witness:
  "ledger_names bucket_abc ''d'' = []
   \<and> read_failed env_ok bucket_abc ''.csv'' ''d/b.csv''
   \<and> ''b.csv'' \<notin> set (ledger_names
        (bucket_after (read_gcs_files_to_dataframes_aserta env_ok bucket_abc ''d'' ''.csv''
           None False True)) ''d'')
   \<and> ''d/b.csv'' \<in> set (files_to_read True
        (ledger_names
           (bucket_after (read_gcs_files_to_dataframes_aserta env_ok bucket_abc ''d'' ''.csv''
              None False True)) ''d'')
        (candidate_files ''.csv'' None
           (blobs_under
              (bucket_after (read_gcs_files_to_dataframes_aserta env_ok bucket_abc ''d''
                 ''.csv'' None False True)) ''d'' False)))"
proof -
  have c: "candidate_files ''.csv'' None (blobs_under bucket_abc ''d'' False) =
             [''d/a.csv'', ''d/b.csv'', ''d/c.csv'']"
    by (simp add: candidate_files_def blobs_under_def bucket_abc_def endswith_def
          startswith_def basename_def log_filename_def)
  have l: "ledger_names bucket_abc ''d'' = []"
    by (simp add: run_defs bucket_abc_def)
  have b: "basename ''d/a.csv'' = ''a.csv''" "basename ''d/b.csv'' = ''b.csv''"
    "basename ''d/c.csv'' = ''c.csv''"
    by (simp_all add: basename_def)
  have rb: "\<forall>c \<in> set (candidate_files ''.csv'' None (blobs_under bucket_abc ''d'' False)).
              reads_back (basename c)"
    by (simp add: c b reads_back_def parse_log_def strip_def isspace_def)
  have t: "[''d/a.csv'', ''d/b.csv'', ''d/c.csv''] =
             files_to_read True (ledger_names bucket_abc ''d'')
               (candidate_files ''.csv'' None (blobs_under bucket_abc ''d'' False))"
    by (simp add: c l files_to_read_def)
  have p: "parsed_ok env_ok bucket_abc ''.csv'' ''d/a.csv''"
    "\<not> parsed_ok env_ok bucket_abc ''.csv'' ''d/b.csv''"
    "parsed_ok env_ok bucket_abc ''.csv'' ''d/c.csv''"
    "read_failed env_ok bucket_abc ''.csv'' ''d/b.csv''"
    by (simp_all add: parsed_ok_def read_failed_def read_one_def env_ok_def bucket_abc_def
          example_reader_def)
  let ?st' = "bucket_after (read_gcs_files_to_dataframes_aserta env_ok bucket_abc ''d'' ''.csv''
                 None False True)"
  have two: "''b.csv'' \<notin> set (ledger_names ?st' ''d'')
             \<and> ''d/b.csv'' \<in> set (files_to_read True (ledger_names ?st' ''d'')
               (candidate_files ''.csv'' None (blobs_under ?st' ''d'' False)))"
    using ledger_sound[OF rb t refl, of env_ok, THEN conjunct2] by (simp add: p b)
  show ?thesis using two l p(4) by simp
qed

text \<open>
  Claim C4 (idempotence under the ledger), as stated, fails in two ways. In the bucket
  \<open>bucket_no_rows\<close> the only file parses into a frame without rows (a file that holds
  its header line only): the file is not in the ledger, it parses, the ledger is written, and
  the first run returns an empty frame. In the bucket \<open>bucket_spaced_name\<close> the
  trailing names start with a space: both files parse, the ledger write succeeds and stores
  the names as they are, the next run reads them stripped, finds neither file in the ledger,
  returns their rows again and uploads the ledger again.
\<close>

theorem rerun_counterexample:
  "parsed_ok env_ok bucket_no_rows ''.csv'' ''d/h.csv''
   \<and> files_to_read True (ledger_names bucket_no_rows ''d'')
        (candidate_files ''.csv'' None (blobs_under bucket_no_rows ''d'' False)) = [''d/h.csv'']
   \<and> read_gcs_files_to_dataframes_aserta env_ok bucket_no_rows ''d'' ''.csv'' None False True =
       \<lparr>returned = Inr empty_df,
        bucket_after = bucket_no_rows @ [(''d/file_already_read.txt'', ''h.csv'')],
        uploaded = Some ''h.csv''\<rparr>
   \<and> parsed_ok env_ok bucket_spaced_name ''.csv'' ''d/p/ x.csv''
   \<and> parsed_ok env_ok bucket_spaced_name ''.csv'' ''d/q/ x.csv''
   \<and> files_to_read True (ledger_names bucket_spaced_name ''d'')
        (candidate_files ''.csv'' None (blobs_under bucket_spaced_name ''d'' False)) =
       [''d/p/ x.csv'', ''d/q/ x.csv'']
   \<and> upload_ok env_ok
   \<and> map_of (bucket_after (read_gcs_files_to_dataframes_aserta env_ok bucket_spaced_name ''d''
                ''.csv'' None False True)) ''d/file_already_read.txt'' =
       Some ('' x.csv'' @ [CHR 0x0A] @ '' x.csv'')
   \<and> returned (read_gcs_files_to_dataframes_aserta env_ok
        (bucket_after (read_gcs_files_to_dataframes_aserta env_ok bucket_spaced_name ''d''
           ''.csv'' None False True))
        ''d'' ''.csv'' None False True) =
       Inr [[(''value'', Text ''1''), (''file'', Text '' x.csv'')],
            [(''value'', Text ''2''), (''file'', Text '' x.csv'')]]
   \<and> uploaded (read_gcs_files_to_dataframes_aserta env_ok
        (bucket_after (read_gcs_files_to_dataframes_aserta env_ok bucket_spaced_name ''d''
           ''.csv'' None False True))
        ''d'' ''.csv'' None False True) \<noteq> None"
  unfolding run_no_rows run_spaced_name
  by (simp add: run_spaced_name_again)
     (simp add: run_defs bucket_no_rows_def bucket_spaced_name_def)

text \<open>
  Claim C4, amended. Take a first run with \<open>read_log_file = True\<close> whose set-up and
  ledger upload succeed, with at least one candidate not in the ledger, where every file read
  parses, at least one of them into a frame with a row, and the trailing names of the files
  read are names that the ledger reader gives back as written. The first run returns a frame
  that is not empty, and a second run on the bucket that the first run left, whatever its
  collaborators do, returns an empty frame, uploads nothing and leaves the bucket as it is.
\<close>

theorem second_run_reads_nothing:
  assumes "client_ok e1" and "read_log e1 st pfx True = Inr files_already_read"
    and "list_ok e1" and "upload_ok e1"
    and "to_read = files_to_read True files_already_read
                     (candidate_files file_type file_prefix (blobs_under st pfx delimiter))"
    and "to_read \<noteq> []"
    and "\<forall>name \<in> set to_read. parsed_ok e1 st file_type name"
    and "\<exists>name \<in> set to_read. \<exists>df. read_one e1 st file_type name = Inr (Some df) \<and> df \<noteq> []"
    and "\<forall>name \<in> set to_read. reads_back (basename name)"
    and "r1 = read_gcs_files_to_dataframes_aserta e1 st pfx file_type file_prefix delimiter True"
  shows "(\<exists>df. returned r1 = Inr df \<and> df \<noteq> empty_df)
         \<and> read_gcs_files_to_dataframes_aserta e2 (bucket_after r1) pfx file_type file_prefix
             delimiter True =
           \<lparr>returned = Inr empty_df, bucket_after = bucket_after r1, uploaded = None\<rparr>"
proof -
  obtain m where m: "m \<in> set to_read" "parsed_ok e1 st file_type m"
    using assms(6,7) by (cases to_read) auto
  have upd: "map basename to_read =
               snd (process_files e1 st file_type to_read ([], map basename to_read))"
    using pending_all_parsed[OF assms(7)] by simp
  have r1: "r1 = \<lparr>returned = Inr (pd_concat (successful_frames e1 st file_type to_read)),
                  bucket_after = AList.update (log_blob_name pfx)
                    (join_str [CHR 0x0A] (files_already_read @ map basename to_read)) st,
                  uploaded = Some (join_str [CHR 0x0A]
                    (files_already_read @ map basename to_read))\<rparr>"
    unfolding assms(10) by (rule run_written[OF assms(1-5) m upd])
  have rows: "pd_concat (successful_frames e1 st file_type to_read) \<noteq> []"
    using assms(8) frames_with_rows by blast
  have "\<forall>x \<in> set (files_already_read @ map basename to_read). reads_back x"
    using assms(9) read_log_reads_back[OF assms(2)] by auto
  then have led: "ledger_names (bucket_after r1) pfx =
                    files_already_read @ map basename to_read"
    by (simp add: r1 ledger_names_update parse_log_join_reads_back)
  have cands: "candidate_files file_type file_prefix (blobs_under (bucket_after r1) pfx delimiter)
                 = candidate_files file_type file_prefix (blobs_under st pfx delimiter)"
    by (simp add: r1 candidate_files_update)
  have none: "files_to_read True (if True then ledger_names (bucket_after r1) pfx else [])
                (candidate_files file_type file_prefix
                   (blobs_under (bucket_after r1) pfx delimiter)) = []"
    unfolding cands led by (auto simp: assms(5) files_to_read_def filter_empty_conv)
  show ?thesis
    using rows run_nothing_to_read[OF none, of e2] by (simp add: r1 empty_df_def)
qed

theorem second_run_reads_nothing_witness:
  "returned (read_gcs_files_to_dataframes_aserta env_ok bucket_xy ''d'' ''.csv'' None False
               True) \<noteq> Inr empty_df
   \<and> read_gcs_files_to_dataframes_aserta env_ok
       (bucket_after (read_gcs_files_to_dataframes_aserta env_ok bucket_xy ''d'' ''.csv'' None
          False True))
       ''d'' ''.csv'' None False True =
     \<lparr>returned = Inr empty_df,
      bucket_after = bucket_after (read_gcs_files_to_dataframes_aserta env_ok bucket_xy ''d''
                       ''.csv'' None False True),
      uploaded = None\<rparr>"
proof -
  have c: "candidate_files ''.csv'' None (blobs_under bucket_xy ''d'' False) =
             [''d/w.csv'', ''d/x.csv'', ''d/y.csv'']"
    by (simp add: candidate_files_def blobs_under_def bucket_xy_def endswith_def
          startswith_def basename_def log_filename_def)
  have l: "read_log env_ok bucket_xy ''d'' True = Inr [''w.csv'']"
    by (simp add: run_defs bucket_xy_def)
  have t: "[''d/x.csv'', ''d/y.csv''] = files_to_read True [''w.csv'']
             (candidate_files ''.csv'' None (blobs_under bucket_xy ''d'' False))"
    by (simp add: c files_to_read_def basename_def)
  have ne: "[''d/x.csv'', ''d/y.csv''] \<noteq> []" by simp
  have po: "\<forall>name \<in> set [''d/x.csv'', ''d/y.csv'']. parsed_ok env_ok bucket_xy ''.csv'' name"
    by (simp add: parsed_ok_def read_one_def env_ok_def bucket_xy_def example_reader_def)
  have rw: "\<exists>name \<in> set [''d/x.csv'', ''d/y.csv''].
              \<exists>df. read_one env_ok bucket_xy ''.csv'' name = Inr (Some df) \<and> df \<noteq> []"
    by (simp add: read_one_def env_ok_def bucket_xy_def example_reader_def)
  have rb: "\<forall>name \<in> set [''d/x.csv'', ''d/y.csv'']. reads_back (basename name)"
    by (simp add: basename_def reads_back_def parse_log_def strip_def isspace_def)
  have k: "client_ok env_ok" "list_ok env_ok" "upload_ok env_ok" by (simp_all add: env_ok_def)
  show ?thesis
    using second_run_reads_nothing[OF k(1) l k(2) k(3) t ne po rw rb refl, of env_ok]
    by auto
qed

text \<open>
  Claim C10 (keying on the trailing path segment), as stated, fails in its last part. In the
  bucket \<open>bucket_two_good\<close> two blobs under different sub-paths share the trailing
  name \<open>x.csv\<close>; a run whose ledger upload raises reads and returns both, leaves the
  bucket as it was, and the next run has both among its files to read. In the bucket
  \<open>bucket_spaced_name\<close> the shared trailing name starts with a space; a run whose
  upload succeeds reads and returns both, and the next run has both among its files to read
  again, since the ledger reader strips the name it finds.
\<close>

theorem shared_name_counterexample:
  "basename ''d/p/x.csv'' = basename ''d/q/x.csv''
   \<and> returned (read_gcs_files_to_dataframes_aserta env_upload_fails bucket_two_good ''d''
                ''.csv'' None False True) =
       Inr [[(''value'', Text ''1''), (''file'', Text ''x.csv'')],
            [(''value'', Text ''2''), (''file'', Text ''x.csv'')]]
   \<and> files_to_read True
        (ledger_names
           (bucket_after (read_gcs_files_to_dataframes_aserta env_upload_fails bucket_two_good
              ''d'' ''.csv'' None False True)) ''d'')
        (candidate_files ''.csv'' None
           (blobs_under
              (bucket_after (read_gcs_files_to_dataframes_aserta env_upload_fails
                 bucket_two_good ''d'' ''.csv'' None False True)) ''d'' False)) =
       [''d/p/x.csv'', ''d/q/x.csv'']
   \<and> basename ''d/p/ x.csv'' = basename ''d/q/ x.csv''
   \<and> upload_ok env_ok
   \<and> returned (read_gcs_files_to_dataframes_aserta env_ok bucket_spaced_name ''d''
                ''.csv'' None False True) =
       Inr [[(''value'', Text ''1''), (''file'', Text '' x.csv'')],
            [(''value'', Text ''2''), (''file'', Text '' x.csv'')]]
   \<and> files_to_read True
        (ledger_names
           (bucket_after (read_gcs_files_to_dataframes_aserta env_ok bucket_spaced_name
              ''d'' ''.csv'' None False True)) ''d'')
        (candidate_files ''.csv'' None
           (blobs_under
              (bucket_after (read_gcs_files_to_dataframes_aserta env_ok
                 bucket_spaced_name ''d'' ''.csv'' None False True)) ''d'' False)) =
       [''d/p/ x.csv'', ''d/q/ x.csv'']"
  unfolding run_two_good_upload_fails run_spaced_name
  by (simp add: run_defs bucket_two_good_def bucket_spaced_name_def)

text \<open>
  Claim C10, amended. The ledger test and the pending list work on the trailing path segment
  of the blob names: the files to read are the candidates whose trailing segment is not in the
  ledger, and the pending list after the loop holds the trailing segments of the files that
  did not fail. For two blobs \<open>b1\<close> and \<open>b2\<close> with the same trailing name, a
  ledger that holds this name keeps both out of the files to read. Once \<open>b1\<close> has
  been read and parsed in a run with \<open>read_log_file = True\<close> whose set-up and ledger
  upload succeed, its trailing name being one that the ledger reader gives back as written,
  both are kept out of the files to read after any number of further runs with
  \<open>read_log_file = True\<close>, whatever the collaborators do in them.
\<close>

theorem trailing_name_keying:
  assumes "basename b1 = basename b2"
  shows "files_to_read read_log_file files_already_read candidates =
           filter (\<lambda>b. \<not> (read_log_file \<and> trailing_segment b \<in> set files_already_read))
             candidates
         \<and> mset (snd (process_files e st file_type names (dfs, map basename names))) =
             mset (map trailing_segment
                     (filter (\<lambda>b. \<not> read_failed e st file_type b) names))
         \<and> (basename b1 \<in> set files_already_read \<longrightarrow>
              b1 \<notin> set (files_to_read True files_already_read candidates)
              \<and> b2 \<notin> set (files_to_read True files_already_read candidates))
         \<and> (client_ok e \<and> read_log e st pfx True = Inr far \<and> list_ok e \<and> upload_ok e
              \<and> b1 \<in> set (files_to_read True far
                             (candidate_files file_type file_prefix
                                (blobs_under st pfx delimiter)))
              \<and> parsed_ok e st file_type b1 \<and> reads_back (basename b1) \<longrightarrow>
              b1 \<notin> set (files_to_read True
                         (ledger_names
                            (runs es
                               (bucket_after
                                  (read_gcs_files_to_dataframes_aserta e st pfx file_type
                                     file_prefix delimiter True))
                               pfx file_type file_prefix delimiter True) pfx)
                         candidates)
              \<and> b2 \<notin> set (files_to_read True
                         (ledger_names
                            (runs es
                               (bucket_after
                                  (read_gcs_files_to_dataframes_aserta e st pfx file_type
                                     file_prefix delimiter True))
                               pfx file_type file_prefix delimiter True) pfx)
                         candidates))"
proof -
  have key: "files_to_read read_log_file files_already_read candidates =
           filter (\<lambda>b. \<not> (read_log_file \<and> trailing_segment b \<in> set files_already_read))
             candidates"
    by (simp add: files_to_read_def basename_trailing_segment)
  have pend: "mset (snd (process_files e st file_type names (dfs, map basename names))) =
             mset (map trailing_segment
                     (filter (\<lambda>b. \<not> read_failed e st file_type b) names))"
    using process_files_pending_names[of e st file_type names dfs]
    by (simp add: basename_trailing_segment[abs_def])
  have skip: "b1 \<notin> set (files_to_read True L candidates)
              \<and> b2 \<notin> set (files_to_read True L candidates)"
    if "basename b1 \<in> set L" for L
    using that assms by (simp add: files_to_read_def)
  have later: "basename b1 \<in> set (ledger_names
                  (runs es
                     (bucket_after
                        (read_gcs_files_to_dataframes_aserta e st pfx file_type
                           file_prefix delimiter True))
                     pfx file_type file_prefix delimiter True) pfx)"
    if "client_ok e" "read_log e st pfx True = Inr far" "list_ok e" "upload_ok e"
      "b1 \<in> set (files_to_read True far
                    (candidate_files file_type file_prefix (blobs_under st pfx delimiter)))"
      "parsed_ok e st file_type b1" "reads_back (basename b1)"
    using recorded_after_run[OF that] ledger_after_runs by blast
  show ?thesis
    using key pend skip later by blast
qed

theorem trailing_name_keying_witness:
  "''d/p/x.csv'' \<notin> set (files_to_read True [''x.csv''] [''d/p/x.csv'', ''d/q/x.csv''])
   \<and> ''d/q/x.csv'' \<notin> set (files_to_read True [''x.csv''] [''d/p/x.csv'', ''d/q/x.csv''])
   \<and> ''d/p/x.csv'' \<notin> set (files_to_read True
        (ledger_names
           (runs [env_upload_fails, env_ok]
              (bucket_after (read_gcs_files_to_dataframes_aserta env_ok bucket_two_good ''d''
                 ''.csv'' None False True))
              ''d'' ''.csv'' None False True) ''d'')
        [''d/p/x.csv'', ''d/q/x.csv''])
   \<and> ''d/q/x.csv'' \<notin> set (files_to_read True
        (ledger_names
           (runs [env_upload_fails, env_ok]
              (bucket_after (read_gcs_files_to_dataframes_aserta env_ok bucket_two_good ''d''
                 ''.csv'' None False True))
              ''d'' ''.csv'' None False True) ''d'')
        [''d/p/x.csv'', ''d/q/x.csv''])"
proof -
  have b: "basename ''d/p/x.csv'' = basename ''d/q/x.csv''"
    and x: "basename ''d/p/x.csv'' = ''x.csv''"
    by (simp_all add: basename_def)
  have k: "client_ok env_ok" "list_ok env_ok" "upload_ok env_ok" by (simp_all add: env_ok_def)
  have l: "read_log env_ok bucket_two_good ''d'' True = Inr []"
    by (simp add: run_defs bucket_two_good_def)
  have t: "''d/p/x.csv'' \<in> set (files_to_read True []
             (candidate_files ''.csv'' None (blobs_under bucket_two_good ''d'' False)))"
    by (simp add: run_defs bucket_two_good_def)
  have p: "parsed_ok env_ok bucket_two_good ''.csv'' ''d/p/x.csv''"
    by (simp add: run_defs bucket_two_good_def)
  have r: "reads_back (basename ''d/p/x.csv'')"
    by (simp add: x reads_back_def parse_log_def strip_def isspace_def)
  have m: "basename ''d/p/x.csv'' \<in> set [''x.csv'']" by (simp add: x)
  note th = trailing_name_keying[OF b, of True "[''x.csv'']" "[''d/p/x.csv'', ''d/q/x.csv'']"
      env_ok bucket_two_good "''.csv''" "[]" "[]" "''d''" "[]" None False
      "[env_upload_fails, env_ok]"]
  show ?thesis
    using th[THEN conjunct2, THEN conjunct2, THEN conjunct1] 
      th[THEN conjunct2, THEN conjunct2, THEN conjunct2] m k l t p r
    by blast
qed

end
